theory Spec2Isabelle
  imports Complex_Main "HOL-Library.AList"
begin

section \<open>JavaScript values\<close>

text \<open>
  The form controller keeps its values, errors and touched flags in plain JavaScript
  trees. A number is a double: only its being \<open>NaN\<close> or not is ever inspected by the
  code below, so a finite double is identified with the rational it denotes.
\<close>

datatype jsnum = NaN | PosInfinity | NegInfinity | Finite rat

datatype jsval =
    JUndefined
  | JNull
  | JBool bool
  | JNum jsnum
  | JStr string
  | JErr string
  | JObj "(string \<times> jsval) list"
  | JArr "jsval list"

text \<open>
  \<open>JErr n\<close> is an \<open>Error\<close> object named \<open>n\<close> (a \<open>TypeError\<close> raised by the
  runtime, for instance). An object is the list of its own properties in enumeration
  order.
\<close>

text \<open>JavaScript truthiness, the \<open>!!x\<close> of the source.\<close>

fun truthy :: "jsval \<Rightarrow> bool" where
  "truthy JUndefined = False"
| "truthy JNull = False"
| "truthy (JBool b) = b"
| "truthy (JNum n) = (n \<noteq> NaN \<and> n \<noteq> Finite 0)"
| "truthy (JStr s) = (s \<noteq> [])"
| "truthy (JErr n) = True"
| "truthy (JObj kvs) = True"
| "truthy (JArr xs) = True"

text \<open>\<open>isNaN = obj !== obj\<close>: strict inequality with itself holds of \<open>NaN\<close> alone.\<close>

definition isNaN :: "jsnum \<Rightarrow> bool" where
  "isNaN n = (n = NaN)"

text \<open>The error the runtime raises on an operation a value does not support.\<close>

definition typeError :: jsval where
  "typeError = JErr ''TypeError''"

section \<open>Path accessor\<close>

text \<open>
  Modelled from the spec: \<open>utils\<close> (\<open>getIn\<close>, \<open>setIn\<close>, \<open>setNestedObjectValues\<close> and
  the path tokenizer) is not among the source files. Section 4.1 of the specification
  fixes the contract: a path is a sequence of tokens separated by dots and brackets,
  a numeric token addresses a sequence, any other token a mapping; reading through a
  missing path yields the absent value; writing creates the minimal intermediate
  containers and returns a copy. Section 3 adds that a write never silently
  overwrites a non-container ancestor, and sections 4.1 and 9 leave open what a write
  does when a node on the path has the wrong kind, allowing a fail-fast error: here
  such a write raises, so a write returns either the raised error (\<open>Inl\<close>) or the
  new tree (\<open>Inr\<close>).
\<close>

definition isSep :: "char \<Rightarrow> bool" where
  "isSep c = (c = CHR ''.'' \<or> c = CHR ''['' \<or> c = CHR '']'')"

fun splitPath :: "string \<Rightarrow> string \<Rightarrow> string list" where
  "splitPath tok [] = (if tok = [] then [] else [tok])"
| "splitPath tok (c # cs) =
     (if isSep c then (if tok = [] then splitPath [] cs else tok # splitPath [] cs)
      else splitPath (tok @ [c]) cs)"

definition toPath :: "string \<Rightarrow> string list" where
  "toPath p = splitPath [] p"

definition isDigit :: "char \<Rightarrow> bool" where
  "isDigit c = (c \<in> set ''0123456789'')"

definition isIndex :: "string \<Rightarrow> bool" where
  "isIndex tok = (tok \<noteq> [] \<and> list_all isDigit tok)"

definition digitVal :: "char \<Rightarrow> nat" where
  "digitVal c = of_char c - 48"

definition indexOf :: "string \<Rightarrow> nat" where
  "indexOf tok = foldl (\<lambda>n c. 10 * n + digitVal c) 0 tok"

text \<open>One step of a read: the property \<open>k\<close> of a node.\<close>

fun getProp :: "jsval \<Rightarrow> string \<Rightarrow> jsval" where
  "getProp (JObj kvs) k = (case map_of kvs k of Some v \<Rightarrow> v | None \<Rightarrow> JUndefined)"
| "getProp (JArr xs) k =
     (if isIndex k \<and> indexOf k < length xs then xs ! indexOf k else JUndefined)"
| "getProp v k = JUndefined"

text \<open>
  One step of a write: a shallow copy of the node with the slot \<open>k\<close> replaced. A
  mapping takes any token as a key; a sequence takes an index and is extended with
  absent values up to it; an absent node becomes the minimal container the token asks
  for. Any other node is in conflict with the token (a scalar, or a sequence under a
  token that is no index): the write raises.
\<close>

fun setProp :: "jsval \<Rightarrow> string \<Rightarrow> jsval \<Rightarrow> jsval + jsval" where
  "setProp (JObj kvs) k v = Inr (JObj (AList.update k v kvs))"
| "setProp (JArr xs) k v =
     (if isIndex k
      then Inr (JArr ((xs @ replicate (Suc (indexOf k) - length xs) JUndefined)[indexOf k := v]))
      else Inl typeError)"
| "setProp JUndefined k v =
     Inr (if isIndex k then JArr (replicate (indexOf k) JUndefined @ [v]) else JObj [(k, v)])"
| "setProp n k v = Inl typeError"

fun getPath :: "jsval \<Rightarrow> string list \<Rightarrow> jsval" where
  "getPath v [] = v"
| "getPath v (t # ts) = getPath (getProp v t) ts"

fun setPath :: "jsval \<Rightarrow> string list \<Rightarrow> jsval \<Rightarrow> jsval + jsval" where
  "setPath n [] v = Inr v"
| "setPath n (t # ts) v =
     (case setPath (getProp n t) ts v of
        Inl e \<Rightarrow> Inl e
      | Inr child \<Rightarrow> setProp n t child)"

definition getIn :: "jsval \<Rightarrow> string \<Rightarrow> jsval" where
  "getIn obj p = getPath obj (toPath p)"

text \<open>
  A path without any token addresses nothing: the write is a no-op (section 7 (c) of
  the specification).
\<close>

definition setIn :: "jsval \<Rightarrow> string \<Rightarrow> jsval \<Rightarrow> jsval + jsval" where
  "setIn obj p v = (case toPath p of [] \<Rightarrow> Inr obj | t # ts \<Rightarrow> setPath obj (t # ts) v)"

definition validPath :: "string \<Rightarrow> bool" where
  "validPath p = (toPath p \<noteq> [])"

text \<open>
  A path is in conflict with a tree when a node it passes through can not take the
  token that follows: a scalar, or a sequence under a token that is no index.
\<close>

fun nodeConflict :: "jsval \<Rightarrow> string \<Rightarrow> bool" where
  "nodeConflict (JObj kvs) k = False"
| "nodeConflict (JArr xs) k = (\<not> isIndex k)"
| "nodeConflict JUndefined k = False"
| "nodeConflict n k = True"

fun pathConflict :: "jsval \<Rightarrow> string list \<Rightarrow> bool" where
  "pathConflict n [] = False"
| "pathConflict n (t # ts) = (nodeConflict n t \<or> pathConflict (getProp n t) ts)"

text \<open>
  Two paths branch off when, after a common prefix, they go on with tokens that
  address different slots (two index tokens of the same number address one slot).
\<close>

fun diverge :: "string list \<Rightarrow> string list \<Rightarrow> bool" where
  "diverge (s # ss) (t # ts) =
     (if s = t then diverge ss ts
      else \<not> (isIndex s \<and> isIndex t \<and> indexOf s = indexOf t))"
| "diverge ss ts = False"

text \<open>
  \<open>setNestedObjectValues(object, value)\<close>: the tree of the same shape whose every leaf
  is \<open>value\<close>; \<open>submitForm\<close> uses it to mark the whole form touched.
\<close>

fun setNestedObjectValues :: "jsval \<Rightarrow> jsval \<Rightarrow> jsval" where
  "setNestedObjectValues (JObj kvs) x = JObj (map (\<lambda>(k, v). (k, setNestedObjectValues v x)) kvs)"
| "setNestedObjectValues (JArr xs) x = JArr (map (\<lambda>v. setNestedObjectValues v x) xs)"
| "setNestedObjectValues v x = x"

section \<open>Deep merge and deep equality\<close>

lemma size_zip_left:
  "(x, y) \<in> set (zip a b) \<Longrightarrow> size (x::jsval) < Suc (size_list size a)"
  using set_zip_leftD[of x y a b] size_list_estimation'[of x a "size x" size] by simp

text \<open>
  Modelled from the spec: \<open>deepmerge\<close> is an imported package, not a source file.
  Section 4.2 of the specification describes the merge as an object-wise union that
  recurses into common nested keys and lets the later source win at a leaf; section 9
  asks for a structural merge over leaves, mappings of children and sequences of
  children, so two sequences are merged position by position.
\<close>

function (sequential) deepmerge :: "jsval \<Rightarrow> jsval \<Rightarrow> jsval" where
  "deepmerge (JObj a) (JObj b) =
     JObj (map (\<lambda>(k, v). (k, case map_of b k of None \<Rightarrow> v | Some w \<Rightarrow> deepmerge v w)) a
           @ filter (\<lambda>(k, w). map_of a k = None) b)"
| "deepmerge (JArr a) (JArr b) =
     JArr (map (\<lambda>(x, y). deepmerge x y) (zip a b) @ drop (length b) a @ drop (length a) b)"
| "deepmerge a b = b"
  by pat_completeness auto
termination
proof (relation "measure (\<lambda>(a, b). size a)")
  show "wf (measure (\<lambda>(a, b). size a))" by simp
next
  fix a b :: "(string \<times> jsval) list" and x :: "string \<times> jsval" and k v w
  assume "x \<in> set a" "(k, v) = x" "map_of b k = Some w"
  then have "(k, v) \<in> set a" by simp
  then have "size v \<le> size_list (size_prod (\<lambda>x. 0) size) a"
    using size_list_estimation'[of "(k, v)" a "size v" "size_prod (\<lambda>x. 0) size"] by simp
  then show "((v, w), (JObj a, JObj b)) \<in> measure (\<lambda>(a, b). size a)" by simp
next
  fix a b :: "jsval list" and z :: "jsval \<times> jsval" and x y
  assume "z \<in> set (zip a b)" "(x, y) = z"
  then have "(x, y) \<in> set (zip a b)" by simp
  from size_zip_left[OF this]
  show "((x, y), (JArr a, JArr b)) \<in> measure (\<lambda>(a, b). size a)" by simp
qed

text \<open>\<open>deepmerge.all(array)\<close> folds the merge over the array, starting from \<open>{}\<close>.\<close>

definition deepmerge_all :: "jsval list \<Rightarrow> jsval" where
  "deepmerge_all xs = foldl deepmerge (JObj []) xs"

text \<open>
  Modelled from the spec: \<open>isEqual\<close> is the imported deep comparison; section 4.3
  of the specification defines \<open>dirty\<close> as the values being deep-unequal to the
  initial values. Two mappings are equal when they have as many keys and every key of
  the first has an equal value in the second; two sequences position by position.
\<close>

function (sequential) isEqual :: "jsval \<Rightarrow> jsval \<Rightarrow> bool" where
  "isEqual (JObj a) (JObj b) =
     (length a = length b \<and>
      list_all (\<lambda>(k, v). case map_of b k of None \<Rightarrow> False | Some w \<Rightarrow> isEqual v w) a)"
| "isEqual (JArr a) (JArr b) =
     (length a = length b \<and> list_all (\<lambda>(x, y). isEqual x y) (zip a b))"
| "isEqual a b = (a = b)"
  by pat_completeness auto
termination
proof (relation "measure (\<lambda>(a, b). size a)")
  show "wf (measure (\<lambda>(a, b). size a))" by simp
next
  fix a b :: "(string \<times> jsval) list" and x :: "string \<times> jsval" and k v w
  assume "x \<in> set a" "(k, v) = x" "map_of b k = Some w"
  then have "(k, v) \<in> set a" by simp
  then have "size v \<le> size_list (size_prod (\<lambda>x. 0) size) a"
    using size_list_estimation'[of "(k, v)" a "size v" "size_prod (\<lambda>x. 0) size"] by simp
  then show "((v, w), (JObj a, JObj b)) \<in> measure (\<lambda>(a, b). size a)" by simp
next
  fix a b :: "jsval list" and z :: "jsval \<times> jsval" and x y
  assume "z \<in> set (zip a b)" "(x, y) = z"
  then have "(x, y) \<in> set (zip a b)" by simp
  from size_zip_left[OF this]
  show "((x, y), (JArr a, JArr b)) \<in> measure (\<lambda>(a, b). size a)" by simp
qed

section \<open>Promises and callbacks\<close>

text \<open>
  A promise is described by how it settles: fulfilled with a value, rejected with a
  reason, or never. A call of a user callback returns a value, throws, or returns a
  promise.
\<close>

datatype 'a promise = Fulfilled 'a | Rejected jsval | Pending

datatype callresult = Returned jsval | Thrown jsval | ReturnedPromise "jsval promise"

text \<open>
  \<open>new Promise(resolve => resolve(call))\<close>: an exception of the call inside the
  executor rejects the promise, a returned promise is followed.
\<close>

fun newPromiseResolve :: "callresult \<Rightarrow> jsval promise" where
  "newPromiseResolve (Returned v) = Fulfilled v"
| "newPromiseResolve (Thrown e) = Rejected e"
| "newPromiseResolve (ReturnedPromise p) = p"

text \<open>\<open>p.then(f)\<close> for a callback \<open>f\<close> that returns a plain value.\<close>

fun promiseThen :: "('a \<Rightarrow> 'b) \<Rightarrow> 'a promise \<Rightarrow> 'b promise" where
  "promiseThen f (Fulfilled x) = Fulfilled (f x)"
| "promiseThen f (Rejected e) = Rejected e"
| "promiseThen f Pending = Pending"

text \<open>\<open>p.then(f)\<close> for a callback that may throw: the exception rejects the result.\<close>

fun promiseThenTry :: "('a \<Rightarrow> jsval + 'b) \<Rightarrow> 'a promise \<Rightarrow> 'b promise" where
  "promiseThenTry f (Fulfilled x) = (case f x of Inl e \<Rightarrow> Rejected e | Inr y \<Rightarrow> Fulfilled y)"
| "promiseThenTry f (Rejected e) = Rejected e"
| "promiseThenTry f Pending = Pending"

text \<open>\<open>p.then(x => x, e => e)\<close>: a rejection becomes a fulfilment with the reason.\<close>

fun thenCatch :: "jsval promise \<Rightarrow> jsval promise" where
  "thenCatch (Fulfilled x) = Fulfilled x"
| "thenCatch (Rejected e) = Fulfilled e"
| "thenCatch Pending = Pending"

text \<open>
  \<open>Promise.all\<close>: fulfilled with all the values, in the order of the array, once every
  element is fulfilled; rejected as soon as one element is rejected (the first one in
  the array here: the arrays below never hold two promises that can both reject);
  pending otherwise.
\<close>

fun promiseAll :: "'a promise list \<Rightarrow> 'a list promise" where
  "promiseAll [] = Fulfilled []"
| "promiseAll (p # ps) =
     (case p of
        Rejected e \<Rightarrow> Rejected e
      | Pending \<Rightarrow> (case promiseAll ps of Rejected e \<Rightarrow> Rejected e | _ \<Rightarrow> Pending)
      | Fulfilled x \<Rightarrow> promiseThen ((#) x) (promiseAll ps))"

section \<open>Data model of the form controller\<close>

record FormState =
  formValues :: jsval
  initialValues :: jsval
  errors :: jsval
  touched :: jsval
  isValidating :: bool
  isSubmitting :: bool
  status :: jsval
  submitCount :: nat

text \<open>
  \<open>formValues\<close> is the \<open>values\<close> slot of the state. A schema is its asynchronous
  \<open>validate\<close> operation: valid, invalid with the list \<open>inner\<close> of failures, or never
  settling. The \<open>validationSchema\<close> prop is a schema or a function returning one.
\<close>

record ValidationError =
  path :: string
  message :: jsval

datatype yupResult = YupValid | YupInvalid "ValidationError list" | YupPending

datatype schemaProp =
    SchemaObject "jsval \<Rightarrow> yupResult"
  | SchemaFactory "unit \<Rightarrow> jsval \<Rightarrow> yupResult"

text \<open>
  The props. \<open>onSubmit(values, actions)\<close> acts on the form through the actions it
  is handed: it is a transformer of the state that returns normally or throws.
\<close>

record Config =
  validateOnChange :: bool
  validateOnBlur :: bool
  validateOnLoad :: bool
  enableReinitialize :: bool
  props_initialValues :: jsval
  validationSchema :: "schemaProp option"
  props_validate :: "(jsval \<Rightarrow> callresult) option"
  onSubmit :: "jsval \<Rightarrow> FormState \<Rightarrow> FormState \<times> jsval option"

record FieldFns =
  validate :: "(jsval \<Rightarrow> callresult) option"

text \<open>
  The component: props, state, the \<open>didMount\<close> flag and the registry \<open>fields\<close> (\<open>fieldsOf\<close>) in
  the order of \<open>Object.keys\<close>. \<open>onSubmitCalls\<close> is a history variable: the first
  argument of every call of \<open>onSubmit\<close> so far.
\<close>

record Formik =
  props :: Config
  state :: FormState
  didMount :: bool
  fieldsOf :: "(string \<times> FieldFns) list"
  onSubmitCalls :: "jsval list"

definition setState :: "(FormState \<Rightarrow> FormState) \<Rightarrow> Formik \<Rightarrow> Formik" where
  "setState f c = c\<lparr>state := f (state c)\<rparr>"

section \<open>Registration and life cycle\<close>

definition registerField :: "string \<Rightarrow> FieldFns \<Rightarrow> Formik \<Rightarrow> Formik" where
  "registerField name fns c = c\<lparr>fieldsOf := AList.update name fns (fieldsOf c)\<rparr>"

definition unregisterField :: "string \<Rightarrow> Formik \<Rightarrow> Formik" where
  "unregisterField name c = c\<lparr>fieldsOf := AList.delete name (fieldsOf c)\<rparr>"

definition componentWillUnmount :: "Formik \<Rightarrow> Formik" where
  "componentWillUnmount c = c\<lparr>didMount := False\<rparr>"

section \<open>Validation pipeline\<close>

definition runSingleFieldLevelValidation :: "Formik \<Rightarrow> string \<Rightarrow> jsval \<Rightarrow> jsval promise" where
  "runSingleFieldLevelValidation c field v =
     (case map_of (fieldsOf c) field of
        None \<Rightarrow> Rejected typeError
      | Some fns \<Rightarrow>
          (case validate fns of
             None \<Rightarrow> Rejected typeError
           | Some f \<Rightarrow> newPromiseResolve (f v)))"

definition sentinel :: string where
  "sentinel = ''DO_NOT_DELETE_YOU_WILL_BE_FIRED''"

definition hasValidate :: "Formik \<Rightarrow> string \<Rightarrow> bool" where
  "hasValidate c f =
     (case map_of (fieldsOf c) f of None \<Rightarrow> False | Some fns \<Rightarrow> validate fns \<noteq> None)"

definition fieldKeysWithValidation :: "Formik \<Rightarrow> string list" where
  "fieldKeysWithValidation c = filter (hasValidate c) (map fst (fieldsOf c))"

text \<open>
  The callback of the \<open>reduce\<close>: the next tree, or the error a failing write
  raises. An index past the keys would read \<open>undefined\<close>, a path without a token.
\<close>

definition fieldErrorStep :: "string list \<Rightarrow> jsval \<Rightarrow> jsval \<times> nat \<Rightarrow> jsval + jsval" where
  "fieldErrorStep keys prev ci =
     (case ci of (cur, i) \<Rightarrow>
        if cur = JStr sentinel then Inr prev
        else if truthy cur
          then (if i < length keys then setIn prev (keys ! i) cur else Inr prev)
          else Inr prev)"

text \<open>
  \<open>fieldErrorsList.reduce(callback, {})\<close>, from the element of index \<open>i\<close> on: an
  exception of the callback ends the \<open>reduce\<close>.
\<close>

fun reduceFrom :: "string list \<Rightarrow> jsval \<Rightarrow> jsval list \<Rightarrow> nat \<Rightarrow> jsval + jsval" where
  "reduceFrom keys prev [] i = Inr prev"
| "reduceFrom keys prev (cur # rest) i =
     (case fieldErrorStep keys prev (cur, i) of
        Inl e \<Rightarrow> Inl e
      | Inr next \<Rightarrow> reduceFrom keys next rest (Suc i))"

definition reduceFieldErrors :: "string list \<Rightarrow> jsval list \<Rightarrow> jsval + jsval" where
  "reduceFieldErrors keys fieldErrorsList = reduceFrom keys (JObj []) fieldErrorsList 0"

definition fieldValidations :: "Formik \<Rightarrow> jsval \<Rightarrow> jsval promise list" where
  "fieldValidations c vals =
     (if length (fieldKeysWithValidation c) > 0
      then map (\<lambda>f. thenCatch (runSingleFieldLevelValidation c f (getIn vals f)))
             (fieldKeysWithValidation c)
      else [Fulfilled (JStr sentinel)])"

definition runFieldLevelValidations :: "Formik \<Rightarrow> jsval \<Rightarrow> jsval promise" where
  "runFieldLevelValidations c vals =
     promiseThenTry (reduceFieldErrors (fieldKeysWithValidation c))
       (promiseAll (fieldValidations c vals))"

definition runValidateHandler :: "Formik \<Rightarrow> jsval \<Rightarrow> jsval promise" where
  "runValidateHandler c vals =
     (case props_validate (props c) of
        None \<Rightarrow> Rejected typeError
      | Some f \<Rightarrow>
          (case f vals of
             Thrown e \<Rightarrow> Rejected e
           | Returned maybePromisedErrors \<Rightarrow>
               (if maybePromisedErrors = JUndefined then Fulfilled (JObj [])
                else Fulfilled maybePromisedErrors)
           | ReturnedPromise p \<Rightarrow>
               (case p of
                  Fulfilled x \<Rightarrow> Fulfilled (JObj [])
                | Rejected errs \<Rightarrow> Fulfilled errs
                | Pending \<Rightarrow> Pending)))"

text \<open>
  \<open>validateYupSchema\<close> hands the schema a copy of the values (a mapping, by their
  type) in which every empty string at the top level is \<open>undefined\<close>.
\<close>

fun validateData :: "jsval \<Rightarrow> jsval" where
  "validateData (JObj kvs) = JObj (map (\<lambda>(k, v). (k, if v \<noteq> JStr [] then v else JUndefined)) kvs)"
| "validateData v = JObj []"

definition validateYupSchema :: "jsval \<Rightarrow> (jsval \<Rightarrow> yupResult) \<Rightarrow> yupResult" where
  "validateYupSchema vals schema = schema (validateData vals)"

text \<open>
  The loop of \<open>yupToFormErrors\<close> over the failures that remain, and the function: the
  error tree, or the error a failing write raises.
\<close>

fun yupErrorsFrom :: "jsval \<Rightarrow> ValidationError list \<Rightarrow> jsval + jsval" where
  "yupErrorsFrom errs [] = Inr errs"
| "yupErrorsFrom errs (err # rest) =
     (if \<not> truthy (getProp errs (path err))
      then (case setIn errs (path err) (message err) of
              Inl e \<Rightarrow> Inl e
            | Inr errs' \<Rightarrow> yupErrorsFrom errs' rest)
      else yupErrorsFrom errs rest)"

definition yupToFormErrors :: "ValidationError list \<Rightarrow> jsval + jsval" where
  "yupToFormErrors inner = yupErrorsFrom (JObj []) inner"

text \<open>
  \<open>runValidationSchema\<close> resolves its promise from inside the two handlers: when
  \<open>yupToFormErrors\<close> raises, \<open>resolve\<close> is never called.
\<close>

definition runValidationSchema :: "Formik \<Rightarrow> jsval \<Rightarrow> jsval promise" where
  "runValidationSchema c vals =
     (case validationSchema (props c) of
        None \<Rightarrow> Rejected typeError
      | Some sp \<Rightarrow>
          (let schema = (case sp of SchemaFactory f \<Rightarrow> f () | SchemaObject sch \<Rightarrow> sch)
           in case validateYupSchema vals schema of
                YupValid \<Rightarrow> Fulfilled (JObj [])
              | YupInvalid inner \<Rightarrow>
                  (case yupToFormErrors inner of
                     Inr errs \<Rightarrow> Fulfilled errs
                   | Inl e \<Rightarrow> Pending)
              | YupPending \<Rightarrow> Pending))"

text \<open>
  \<open>runValidations\<close> in its three parts: the synchronous start, the promise of the
  three sources, and the callback that runs when this promise is fulfilled, on the
  component as it is by then.
\<close>

definition runValidations_begin :: "Formik \<Rightarrow> Formik" where
  "runValidations_begin c = setState (\<lambda>s. s\<lparr>isValidating := True\<rparr>) c"

definition runValidations_sources :: "Formik \<Rightarrow> jsval \<Rightarrow> jsval promise list" where
  "runValidations_sources c vals =
     [runFieldLevelValidations c vals,
      if validationSchema (props c) \<noteq> None then runValidationSchema c vals else Fulfilled (JObj []),
      if props_validate (props c) \<noteq> None then runValidateHandler c vals else Fulfilled (JObj [])]"

definition runValidations_then :: "Formik \<Rightarrow> jsval list \<Rightarrow> Formik \<times> jsval" where
  "runValidations_then c results =
     (let combinedErrors = deepmerge_all results
      in (if didMount c
          then setState (\<lambda>s. s\<lparr>isValidating := False, errors := combinedErrors\<rparr>) c
          else c,
          combinedErrors))"

text \<open>The whole of \<open>runValidations\<close> when nothing else happens before it settles.\<close>

definition runValidations :: "Formik \<Rightarrow> jsval \<Rightarrow> Formik \<times> jsval promise" where
  "runValidations c vals =
     (let c1 = runValidations_begin c
      in case promiseAll (runValidations_sources c1 vals) of
           Fulfilled results \<Rightarrow>
             (case runValidations_then c1 results of (c2, combinedErrors) \<Rightarrow>
                (c2, Fulfilled combinedErrors))
         | Rejected e \<Rightarrow> (c1, Rejected e)
         | Pending \<Rightarrow> (c1, Pending))"

definition componentDidMount :: "Formik \<Rightarrow> Formik" where
  "componentDidMount c =
     (let c1 = c\<lparr>didMount := True\<rparr>
      in if validateOnLoad (props c1) then runValidations_begin c1 else c1)"

text \<open>
  \<open>validateField\<close>: the start, the callback of \<open>then\<close> (the component it leaves, or
  the error a failing write raises before anything is stored), and the whole when
  nothing else happens in between. A rejection has no handler here, nor has an
  exception of the callback: it is returned as the unhandled reason.
\<close>

definition validateField_then :: "Formik \<Rightarrow> string \<Rightarrow> jsval \<Rightarrow> jsval + Formik" where
  "validateField_then c field err =
     (if didMount c
      then (case setIn (errors (state c)) field err of
              Inl e \<Rightarrow> Inl e
            | Inr tree \<Rightarrow> Inr (setState (\<lambda>s. s\<lparr>errors := tree, isValidating := False\<rparr>) c))
      else Inr c)"

definition validateField :: "Formik \<Rightarrow> string \<Rightarrow> Formik \<times> jsval option" where
  "validateField c field =
     (let c1 = setState (\<lambda>s. s\<lparr>isValidating := True\<rparr>) c
      in case runSingleFieldLevelValidation c1 field (getIn (formValues (state c)) field) of
           Fulfilled err \<Rightarrow>
             (case validateField_then c1 field err of
                Inr c2 \<Rightarrow> (c2, None)
              | Inl e \<Rightarrow> (c1, Some e))
         | Rejected e \<Rightarrow> (c1, Some e)
         | Pending \<Rightarrow> (c1, None))"

section \<open>Change events\<close>

record Target =
  target_type :: "string option"
  target_name :: "string option"
  target_id :: "string option"
  target_value :: jsval
  target_checked :: jsval

datatype changeArg = TextValue string | ChangeEvent Target

text \<open>\<open>/lit/.test(s)\<close> for a literal pattern: \<open>lit\<close> occurs in \<open>s\<close>.\<close>

fun occursIn :: "string \<Rightarrow> string \<Rightarrow> bool" where
  "occursIn lit [] = (lit = [])"
| "occursIn lit (c # cs) = (take (length lit) (c # cs) = lit \<or> occursIn lit cs)"

text \<open>The argument of \<open>test\<close> is converted to a string: \<open>undefined\<close> to its name.\<close>

definition testString :: "string option \<Rightarrow> string" where
  "testString t = (case t of None \<Rightarrow> ''undefined'' | Some str \<Rightarrow> str)"

definition isNumberOrRange :: "string option \<Rightarrow> bool" where
  "isNumberOrRange t = (occursIn ''number'' (testString t) \<or> occursIn ''range'' (testString t))"

definition isCheckbox :: "string option \<Rightarrow> bool" where
  "isCheckbox t = occursIn ''checkbox'' (testString t)"

definition truthyName :: "string option \<Rightarrow> bool" where
  "truthyName n = (case n of None \<Rightarrow> False | Some str \<Rightarrow> str \<noteq> [])"

text \<open>The value a change event carries; \<open>parseFloat\<close> is the built-in.\<close>

definition coerceValue :: "(jsval \<Rightarrow> jsnum) \<Rightarrow> Target \<Rightarrow> jsval" where
  "coerceValue parseFloat t =
     (if isNumberOrRange (target_type t)
      then (let parsed = parseFloat (target_value t) in if isNaN parsed then JStr [] else JNum parsed)
      else if isCheckbox (target_type t) then target_checked t
      else target_value t)"

definition targetField :: "string option \<Rightarrow> Target \<Rightarrow> string option" where
  "targetField maybePath t =
     (if truthyName maybePath then maybePath
      else if truthyName (target_name t) then target_name t
      else target_id t)"

text \<open>
  \<open>executeChange\<close> returns the component after its synchronous part and, when it
  starts a validation run, the values this run is given. The updater of \<open>setState\<close>
  writes into the state the component has (its \<open>prevState\<close>), and so does the call
  that builds the values of the run. A failing write raises: nothing is stored and no
  run is started.
\<close>

definition executeChange ::
  "(jsval \<Rightarrow> jsnum) \<Rightarrow> Formik \<Rightarrow> changeArg \<Rightarrow> string option
     \<Rightarrow> jsval + Formik \<times> jsval option" where
  "executeChange parseFloat c eventOrTextValue maybePath =
     (let field = (case eventOrTextValue of
                     TextValue str \<Rightarrow> maybePath
                   | ChangeEvent t \<Rightarrow> targetField maybePath t);
          val = (case eventOrTextValue of
                   TextValue str \<Rightarrow> JStr str
                 | ChangeEvent t \<Rightarrow> coerceValue parseFloat t)
      in case field of
           None \<Rightarrow> Inr (c, None)
         | Some f \<Rightarrow>
             if f = [] then Inr (c, None)
             else
               (case setIn (formValues (state c)) f val of
                  Inl e \<Rightarrow> Inl e
                | Inr tree \<Rightarrow>
                    (let c1 = setState (\<lambda>prevState. prevState\<lparr>formValues := tree\<rparr>) c
                     in if validateOnChange (props c)
                        then (case setIn (formValues (state c)) f val of
                                Inl e \<Rightarrow> Inl e
                              | Inr vals \<Rightarrow> Inr (runValidations_begin c1, Some vals))
                        else Inr (c1, None))))"

text \<open>
  \<open>handleChange\<close> with an event runs \<open>executeChange\<close> on it; with a field name it
  returns the handler bound to that name.
\<close>

definition handleChange ::
  "(jsval \<Rightarrow> jsnum) \<Rightarrow> Formik \<Rightarrow> Target \<Rightarrow> jsval + Formik \<times> jsval option" where
  "handleChange parseFloat c t = executeChange parseFloat c (ChangeEvent t) None"

definition handleChange_path ::
  "(jsval \<Rightarrow> jsnum) \<Rightarrow> string \<Rightarrow> changeArg \<Rightarrow> Formik
     \<Rightarrow> jsval + Formik \<times> jsval option" where
  "handleChange_path parseFloat eventOrPath = (\<lambda>ev c. executeChange parseFloat c ev (Some eventOrPath))"

section \<open>Submission\<close>

text \<open>\<open>Object.keys(x).length\<close>; \<open>Object.keys\<close> throws on \<open>undefined\<close> and \<open>null\<close>.\<close>

fun objectKeysLength :: "jsval \<Rightarrow> nat option" where
  "objectKeysLength (JObj kvs) = Some (length kvs)"
| "objectKeysLength (JArr xs) = Some (length xs)"
| "objectKeysLength (JStr str) = Some (length str)"
| "objectKeysLength JUndefined = None"
| "objectKeysLength JNull = None"
| "objectKeysLength v = Some 0"

definition submitForm_begin :: "Formik \<Rightarrow> Formik" where
  "submitForm_begin c =
     runValidations_begin
       (setState (\<lambda>prevState. prevState
          \<lparr>touched := setNestedObjectValues (formValues prevState) (JBool True),
           isSubmitting := True,
           submitCount := submitCount prevState + 1\<rparr>) c)"

definition executeSubmit :: "Formik \<Rightarrow> Formik \<times> jsval option" where
  "executeSubmit c =
     (case onSubmit (props c) (formValues (state c)) (state c) of (st, thrown) \<Rightarrow>
        (c\<lparr>state := st, onSubmitCalls := onSubmitCalls c @ [formValues (state c)]\<rparr>, thrown))"

text \<open>
  The callback \<open>submitForm\<close> chains on the validation run, with the promise it
  settles: an exception inside it rejects that promise.
\<close>

definition submitForm_then :: "Formik \<Rightarrow> jsval \<Rightarrow> Formik \<times> jsval promise" where
  "submitForm_then c combinedErrors =
     (case objectKeysLength combinedErrors of
        None \<Rightarrow> (c, Rejected typeError)
      | Some n \<Rightarrow>
          if n = 0
          then (case executeSubmit c of
                  (c', None) \<Rightarrow> (c', Fulfilled JUndefined)
                | (c', Some e) \<Rightarrow> (c', Rejected e))
          else (setState (\<lambda>s. s\<lparr>isSubmitting := False\<rparr>) c, Fulfilled JUndefined))"

text \<open>The whole of \<open>submitForm\<close> when nothing else happens before it settles.\<close>

definition submitForm :: "Formik \<Rightarrow> Formik \<times> jsval promise" where
  "submitForm c =
     (let c0 = setState (\<lambda>prevState. prevState
                  \<lparr>touched := setNestedObjectValues (formValues prevState) (JBool True),
                   isSubmitting := True,
                   submitCount := submitCount prevState + 1\<rparr>) c
      in case runValidations c0 (formValues (state c0)) of
           (c1, Fulfilled combinedErrors) \<Rightarrow> submitForm_then c1 combinedErrors
         | (c1, Rejected e) \<Rightarrow> (c1, Rejected e)
         | (c1, Pending) \<Rightarrow> (c1, Pending))"

section \<open>Reset\<close>

text \<open>
  \<open>resetFormState\<close> builds a partial state; \<open>setState\<close> merges it into the state, so
  the slots it does not name keep their value.
\<close>

definition resetFormState :: "jsval \<Rightarrow> FormState \<Rightarrow> FormState" where
  "resetFormState vals s =
     s\<lparr>isSubmitting := False, isValidating := False, errors := JObj [], touched := JObj [],
       status := JUndefined, formValues := vals, submitCount := 0\<rparr>"

definition resetForm :: "jsval \<Rightarrow> Formik \<Rightarrow> Formik" where
  "resetForm nextValues c =
     setState (resetFormState (if truthy nextValues then nextValues else initialValues (state c))) c"

definition getDerivedStateFromProps :: "Config \<Rightarrow> FormState \<Rightarrow> FormState" where
  "getDerivedStateFromProps nextProps prevState =
     (if enableReinitialize nextProps
         \<and> \<not> isEqual (initialValues prevState) (props_initialValues nextProps)
      then resetFormState (props_initialValues nextProps)
             (prevState\<lparr>initialValues := props_initialValues nextProps\<rparr>)
      else prevState)"

definition dirty :: "Formik \<Rightarrow> bool" where
  "dirty c = (\<not> isEqual (initialValues (state c)) (formValues (state c)))"

section \<open>A sample form and settlements\<close>

text \<open>A sample tree: \<open>{user: {name: "jared"}, age: 3}\<close>.\<close>

definition sampleTree :: jsval where
  "sampleTree = JObj [(''user'', JObj [(''name'', JStr ''jared'')]), (''age'', JNum (Finite 3))]"

text \<open>The constructor: the state a freshly built component starts from.\<close>

definition newFormik :: "Config \<Rightarrow> Formik" where
  "newFormik p =
     \<lparr>props = p,
      state = \<lparr>formValues = (if truthy (props_initialValues p) then props_initialValues p else JObj []),
               initialValues = (if truthy (props_initialValues p) then props_initialValues p else JObj []),
               errors = JObj [], touched = JObj [], isValidating = False, isSubmitting = False,
               status = JUndefined, submitCount = 0\<rparr>,
      didMount = False, fieldsOf = [], onSubmitCalls = []\<rparr>"

text \<open>A form with the default options, one value and no validator, after its mount.\<close>

definition noopSubmit :: "jsval \<Rightarrow> FormState \<Rightarrow> FormState \<times> jsval option" where
  "noopSubmit v s = (s, None)"

definition exampleProps :: Config where
  "exampleProps =
     \<lparr>validateOnChange = True, validateOnBlur = True, validateOnLoad = False,
      enableReinitialize = False,
      props_initialValues = JObj [(''name'', JStr ''jared'')],
      validationSchema = None, props_validate = None, onSubmit = noopSubmit\<rparr>"

definition exampleForm :: Formik where
  "exampleForm = componentDidMount (newFormik exampleProps)"

definition requiredValidator :: "jsval \<Rightarrow> callresult" where
  "requiredValidator v = (if truthy v then Returned JUndefined else Returned (JStr ''required''))"

text \<open>
  The two asynchronous validation runs of the controller settle by running their
  callback on the component as it is at that moment: the full pipeline with the
  results of its three sources, the single-field run with the validator's result. A
  callback that raises stores nothing.
\<close>

datatype settlement = PipelineSettles "jsval list" | FieldSettles string jsval

fun settle :: "Formik \<Rightarrow> settlement \<Rightarrow> Formik" where
  "settle c (PipelineSettles results) = fst (runValidations_then c results)"
| "settle c (FieldSettles field err) =
     (case validateField_then c field err of Inr c' \<Rightarrow> c' | Inl e \<Rightarrow> c)"

text \<open>A stand-in for the built-in \<open>parseFloat\<close> on two inputs, and a numeric input.\<close>

definition sampleParseFloat :: "jsval \<Rightarrow> jsnum" where
  "sampleParseFloat v = (if v = JStr ''42'' then Finite 42 else NaN)"

definition ageTarget :: "string \<Rightarrow> Target" where
  "ageTarget str = \<lparr>target_type = Some ''number'', target_name = Some ''age'', target_id = None,
                    target_value = JStr str, target_checked = JUndefined\<rparr>"

text \<open>The sample form with a field \<open>email\<close> registered with a validator.\<close>

definition emailForm :: Formik where
  "emailForm = registerField ''email'' \<lparr>validate = Some requiredValidator\<rparr> exampleForm"

section \<open>Vocabulary for the field-level batch\<close>

text \<open>
  The run of one registered field on the given values; the value a run is fulfilled
  with once \<open>then(x => x, e => e)\<close> has caught it; whether that value makes the
  \<open>reduce\<close> write an entry; the callback of the \<open>reduce\<close> for the key \<open>k\<close>; and
  the \<open>reduce\<close> over keys whose results are given by \<open>h\<close>.
\<close>

fun settledValue :: "jsval promise \<Rightarrow> jsval" where
  "settledValue (Fulfilled x) = x"
| "settledValue (Rejected e) = e"
| "settledValue Pending = JUndefined"

definition fieldRun :: "Formik \<Rightarrow> jsval \<Rightarrow> string \<Rightarrow> jsval promise" where
  "fieldRun c vals f = runSingleFieldLevelValidation c f (getIn vals f)"


definition addFieldError :: "jsval \<Rightarrow> string \<Rightarrow> jsval \<Rightarrow> jsval + jsval" where
  "addFieldError prev k cur = fieldErrorStep [k] prev (cur, 0)"

fun addFieldErrors :: "(string \<Rightarrow> jsval) \<Rightarrow> jsval \<Rightarrow> string list \<Rightarrow> jsval + jsval" where
  "addFieldErrors h prev [] = Inr prev"
| "addFieldErrors h prev (k # ks) =
     (case addFieldError prev k (h k) of
        Inl e \<Rightarrow> Inl e
      | Inr next \<Rightarrow> addFieldErrors h next ks)"

text \<open>Sample validators and forms: a validator whose promise is rejected with \<open>x\<close>.\<close>

definition rejectsWith :: "jsval \<Rightarrow> jsval \<Rightarrow> callresult" where
  "rejectsWith x v = ReturnedPromise (Rejected x)"

definition rejectingForm :: "jsval \<Rightarrow> Formik" where
  "rejectingForm x = registerField ''email'' \<lparr>validate = Some (rejectsWith x)\<rparr> exampleForm"

definition sampleValues :: jsval where
  "sampleValues = JObj [(''name'', JStr ''jared'')]"




section \<open>Vocabulary for the merge\<close>

text \<open>A leaf of an error tree: a present value that is not a container.\<close>

fun isLeaf :: "jsval \<Rightarrow> bool" where
  "isLeaf JUndefined = False"
| "isLeaf (JObj kvs) = False"
| "isLeaf (JArr xs) = False"
| "isLeaf v = True"

text \<open>
  A form whose three validation sources disagree: the validator of the field \<open>x\<close>
  reports \<open>f\<close>, the schema reports \<open>s\<close> at \<open>x\<close> and \<open>y\<close>, the form-level
  validator reports \<open>m\<close> at \<open>x\<close>.
\<close>

definition conflictProps :: Config where
  "conflictProps = exampleProps
     \<lparr>validationSchema :=
        Some (SchemaObject (\<lambda>v. YupInvalid [\<lparr>path = ''x'', message = JStr ''s''\<rparr>,
                                           \<lparr>path = ''y'', message = JStr ''s''\<rparr>])),
      props_validate := Some (\<lambda>v. Returned (JObj [(''x'', JStr ''m'')]))\<rparr>"

definition conflictForm :: Formik where
  "conflictForm =
     registerField ''x'' \<lparr>validate = Some (\<lambda>v. Returned (JStr ''f''))\<rparr>
       (componentDidMount (newFormik conflictProps))"

section \<open>Round trip of the path accessor\<close>

lemma getProp_setProp: "setProp n k v = Inr n' \<Longrightarrow> getProp n' k = v"
proof (cases n)
  case (JObj kvs)
  assume "setProp n k v = Inr n'"
  with JObj show ?thesis by (auto simp: update_conv')
next
  case (JArr xs)
  assume s: "setProp n k v = Inr n'"
  have "indexOf k < length xs + (Suc (indexOf k) - length xs)" by arith
  with JArr s show ?thesis by (auto split: if_splits)
next
  case JUndefined
  assume "setProp n k v = Inr n'"
  with JUndefined show ?thesis by (auto simp: nth_append)
qed simp_all

lemma getProp_setProp_other:
  assumes "setProp n s v = Inr n'" and "s \<noteq> t"
    and "\<not> (isIndex s \<and> isIndex t \<and> indexOf s = indexOf t)"
  shows "getProp n' t = getProp n t"
proof (cases n)
  case (JObj kvs)
  with assms show ?thesis by (auto simp: update_conv')
next
  case (JArr xs)
  with assms(1) have ix: "isIndex s"
    and n': "n' = JArr ((xs @ replicate (Suc (indexOf s) - length xs) JUndefined)[indexOf s := v])"
    by (auto split: if_splits)
  show ?thesis
  proof (cases "isIndex t")
    case False
    then show ?thesis using JArr n' by simp
  next
    case True
    with assms(3) ix have ne: "indexOf s \<noteq> indexOf t" by simp
    show ?thesis
    proof (cases "indexOf t < length xs")
      case True
      then show ?thesis using JArr n' ne \<open>isIndex t\<close> by (simp add: nth_append)
    next
      case False
      then show ?thesis using JArr n' ne \<open>isIndex t\<close> by (auto simp: nth_append)
    qed
  qed
next
  case JUndefined
  with assms show ?thesis by (auto simp: nth_append split: if_splits)
qed (use assms in simp_all)

lemma setProp_conflict: "nodeConflict n k \<Longrightarrow> setProp n k v = Inl typeError"
  by (cases n) simp_all

lemma setProp_ok: "\<not> nodeConflict n k \<Longrightarrow> \<exists>n'. setProp n k v = Inr n'"
  by (cases n) simp_all

lemma setProp_error: "setProp n k v = Inl e \<Longrightarrow> e = typeError"
  by (cases n) (auto split: if_splits)

lemma setPath_error: "setPath n ts v = Inl e \<Longrightarrow> e = typeError"
proof (induction ts arbitrary: n v e)
  case Nil
  then show ?case by simp
next
  case (Cons t ts)
  then show ?case by (auto split: sum.splits dest: setProp_error)
qed

lemma setPath_conflict: "pathConflict n ts \<Longrightarrow> setPath n ts v = Inl typeError"
proof (induction ts arbitrary: n v)
  case Nil
  then show ?case by simp
next
  case (Cons t ts)
  show ?case
  proof (cases "setPath (getProp n t) ts v")
    case (Inl e)
    then have "e = typeError" by (rule setPath_error)
    with Inl show ?thesis by simp
  next
    case (Inr child)
    have "\<not> pathConflict (getProp n t) ts"
      using Cons.IH[of "getProp n t" v] Inr by auto
    with Cons.prems have "nodeConflict n t" by simp
    then show ?thesis using Inr by (simp add: setProp_conflict)
  qed
qed

lemma setPath_ok: "\<not> pathConflict n ts \<Longrightarrow> \<exists>n'. setPath n ts v = Inr n'"
proof (induction ts arbitrary: n v)
  case Nil
  then show ?case by simp
next
  case (Cons t ts)
  then obtain child where c: "setPath (getProp n t) ts v = Inr child" by fastforce
  from Cons.prems have "\<not> nodeConflict n t" by simp
  from setProp_ok[OF this, of child] c show ?case by simp
qed

lemma getPath_setPath:
  "ts \<noteq> [] \<Longrightarrow> setPath n ts v = Inr n' \<Longrightarrow> getPath n' ts = v"
proof (induction ts arbitrary: n n')
  case Nil
  then show ?case by simp
next
  case (Cons t ts)
  from Cons.prems(2) obtain child
    where c: "setPath (getProp n t) ts v = Inr child" and s: "setProp n t child = Inr n'"
    by (auto split: sum.splits)
  have g: "getProp n' t = child" using s by (rule getProp_setProp)
  show ?case
  proof (cases "ts = []")
    case True
    with c g show ?thesis by simp
  next
    case False
    from Cons.IH[OF False c] g show ?thesis by simp
  qed
qed

lemma getPath_setPath_diverge:
  "diverge ps qs \<Longrightarrow> setPath n ps v = Inr n' \<Longrightarrow> getPath n' qs = getPath n qs"
proof (induction ps qs arbitrary: n n' rule: diverge.induct)
  case (1 s ss t ts)
  from "1.prems"(2) obtain child
    where c: "setPath (getProp n s) ss v = Inr child" and st: "setProp n s child = Inr n'"
    by (auto split: sum.splits)
  show ?case
  proof (cases "s = t")
    case True
    with "1.prems"(1) have d: "diverge ss ts" by simp
    have "getProp n' t = child" using st True getProp_setProp by blast
    moreover have "getPath child ts = getPath (getProp n s) ts"
      using "1.IH"[OF True d c] .
    ultimately show ?thesis using True by simp
  next
    case False
    with "1.prems"(1) have "\<not> (isIndex s \<and> isIndex t \<and> indexOf s = indexOf t)" by simp
    from getProp_setProp_other[OF st False this] show ?thesis by simp
  qed
qed simp_all

lemma getIn_setIn: "validPath p \<Longrightarrow> setIn tree p v = Inr tree' \<Longrightarrow> getIn tree' p = v"
proof -
  assume "validPath p" and s: "setIn tree p v = Inr tree'"
  then obtain t ts where split: "toPath p = t # ts"
    by (cases "toPath p") (simp_all add: validPath_def)
  with s have "setPath tree (t # ts) v = Inr tree'" by (simp add: setIn_def)
  then have "getPath tree' (t # ts) = v" by (rule getPath_setPath[rotated]) simp
  then show ?thesis by (simp add: getIn_def split)
qed

lemma getIn_setIn_diverge:
  assumes "diverge (toPath p) (toPath q)" and "setIn tree p v = Inr tree'"
  shows "getIn tree' q = getIn tree q"
proof -
  from assms(1) obtain t ts where split: "toPath p = t # ts"
    by (cases "toPath p") simp_all
  with assms(2) have "setPath tree (toPath p) v = Inr tree'" by (simp add: setIn_def)
  from getPath_setPath_diverge[OF assms(1) this] show ?thesis by (simp add: getIn_def)
qed

lemma setIn_empty_path: "toPath p = [] \<Longrightarrow> setIn tree p v = Inr tree"
  by (simp add: setIn_def)

text \<open>
  C6. For every tree, every value \<open>V\<close> and every path \<open>P\<close> with at least one token:
  when the path is in conflict with the tree (it passes through a scalar, or through
  a sequence under a token that is no index) the write raises and returns no tree;
  otherwise it returns a tree in which reading \<open>P\<close> yields \<open>V\<close>. The write is a
  function of its arguments: the input tree is a value and cannot change, and the
  tree returned is a copy of it in which every path that branches off from \<open>P\<close>
  reads as in the input.
\<close>

theorem path_accessor_round_trip:
  assumes "validPath P"
  shows "(pathConflict tree (toPath P) \<longrightarrow> setIn tree P V = Inl typeError) \<and>
         (\<not> pathConflict tree (toPath P) \<longrightarrow>
            (\<exists>tree'. setIn tree P V = Inr tree' \<and> getIn tree' P = V \<and>
               (\<forall>Q. diverge (toPath P) (toPath Q) \<longrightarrow> getIn tree' Q = getIn tree Q)))"
proof (intro conjI impI)
  from assms obtain t ts where split: "toPath P = t # ts"
    by (cases "toPath P") (simp_all add: validPath_def)
  then have unfold: "setIn tree P V = setPath tree (toPath P) V" by (simp add: setIn_def)
  {
    assume "pathConflict tree (toPath P)"
    then show "setIn tree P V = Inl typeError" unfolding unfold by (rule setPath_conflict)
  }
  {
    assume "\<not> pathConflict tree (toPath P)"
    then obtain tree' where ok: "setIn tree P V = Inr tree'"
      unfolding unfold using setPath_ok by blast
    have "getIn tree' P = V" using assms ok by (rule getIn_setIn)
    moreover have "\<forall>Q. diverge (toPath P) (toPath Q) \<longrightarrow> getIn tree' Q = getIn tree Q"
      using ok by (auto intro: getIn_setIn_diverge)
    ultimately show "\<exists>tree'. setIn tree P V = Inr tree' \<and> getIn tree' P = V \<and>
               (\<forall>Q. diverge (toPath P) (toPath Q) \<longrightarrow> getIn tree' Q = getIn tree Q)"
      using ok by blast
  }
qed

lemma sample_paths:
  "toPath ''user.powers[0]'' = [''user'', ''powers'', ''0'']"
  "toPath ''user.name'' = [''user'', ''name'']"
  "toPath ''age.x'' = [''age'', ''x'']"
  by (simp_all add: toPath_def isSep_def)

theorem path_accessor_round_trip_witness:
  "validPath ''user.powers[0]'' \<and>
   \<not> pathConflict sampleTree (toPath ''user.powers[0]'') \<and>
   (\<exists>tree'. setIn sampleTree ''user.powers[0]'' (JStr ''fly'') = Inr tree' \<and>
      getIn tree' ''user.powers[0]'' = JStr ''fly'' \<and>
      getIn tree' ''user.name'' = JStr ''jared'') \<and>
   validPath ''age.x'' \<and> pathConflict sampleTree (toPath ''age.x'') \<and>
   setIn sampleTree ''age.x'' (JStr ''fly'') = Inl typeError"
proof -
  have v1: "validPath ''user.powers[0]''" and v2: "validPath ''age.x''"
    by (simp_all add: validPath_def sample_paths)
  have n1: "\<not> pathConflict sampleTree (toPath ''user.powers[0]'')"
    by (simp add: sample_paths sampleTree_def)
  have c2: "pathConflict sampleTree (toPath ''age.x'')"
    by (simp add: sample_paths sampleTree_def)
  have d: "diverge (toPath ''user.powers[0]'') (toPath ''user.name'')"
    by (simp add: sample_paths isIndex_def isDigit_def)
  have r: "getIn sampleTree ''user.name'' = JStr ''jared''"
    by (simp add: getIn_def sample_paths sampleTree_def)
  from path_accessor_round_trip[OF v1, of sampleTree "JStr ''fly''"] n1
  obtain tree' where t: "setIn sampleTree ''user.powers[0]'' (JStr ''fly'') = Inr tree'"
    and g: "getIn tree' ''user.powers[0]'' = JStr ''fly''"
    and f: "\<forall>Q. diverge (toPath ''user.powers[0]'') (toPath Q) \<longrightarrow> getIn tree' Q = getIn sampleTree Q"
    by blast
  from f d r have "getIn tree' ''user.name'' = JStr ''jared''" by simp
  with t g have ex: "\<exists>tree'. setIn sampleTree ''user.powers[0]'' (JStr ''fly'') = Inr tree' \<and>
      getIn tree' ''user.powers[0]'' = JStr ''fly'' \<and>
      getIn tree' ''user.name'' = JStr ''jared''" by blast
  have e: "setIn sampleTree ''age.x'' (JStr ''fly'') = Inl typeError"
    using path_accessor_round_trip[OF v2, of sampleTree "JStr ''fly''"] c2 by simp
  show ?thesis using v1 v2 n1 c2 ex e by blast
qed

section \<open>Settlement after unmount\<close>

lemma exampleForm_eq:
  "exampleForm = (newFormik exampleProps)\<lparr>didMount := True\<rparr>"
  by (simp add: exampleForm_def componentDidMount_def exampleProps_def newFormik_def Let_def)

lemma settle_unmounted: "\<not> didMount c \<Longrightarrow> settle c s = c"
  by (cases s) (simp_all add: runValidations_then_def validateField_then_def)

text \<open>
  C7. Once the controller has unmounted (\<open>didMount\<close> is false), every validation
  run that settles afterwards, full pipeline or single field, in any number and
  order, leaves the component as it is: neither \<open>errors\<close> nor \<open>isValidating\<close> is
  written. The callbacks return normally: the pipeline's still yields the merged
  errors.
\<close>

theorem unmounted_settlement_is_dropped:
  assumes "\<not> didMount c"
  shows "foldl settle c ss = c \<and>
         runValidations_then c results = (c, deepmerge_all results) \<and>
         validateField_then c field err = Inr c"
proof -
  have "foldl settle c ss = c"
    using assms by (induction ss) (simp_all add: settle_unmounted)
  then show ?thesis
    using assms by (simp add: runValidations_then_def validateField_then_def)
qed

theorem unmounted_settlement_is_dropped_witness:
  "\<not> didMount (componentWillUnmount exampleForm) \<and>
   foldl settle (componentWillUnmount exampleForm)
     [FieldSettles ''name'' (JStr ''required''),
      PipelineSettles [JObj [(''name'', JStr ''required'')], JObj [], JObj []]]
     = componentWillUnmount exampleForm \<and>
   errors (state (componentWillUnmount exampleForm)) = JObj []"
proof -
  have un: "\<not> didMount (componentWillUnmount exampleForm)"
    by (simp add: componentWillUnmount_def)
  have er: "errors (state (componentWillUnmount exampleForm)) = JObj []"
    by (simp add: componentWillUnmount_def exampleForm_eq newFormik_def)
  show ?thesis
    using un er unmounted_settlement_is_dropped[OF un]
    by simp
qed

section \<open>Single-field validation and the registry\<close>

text \<open>
  C10. \<open>validateField(path)\<close> presupposes a registration with a validator at the
  path. With one, the unguarded lookup does not fault: the run is the validator's own
  call. Without a registration, or with one that has no validator, the lookup raises
  a \<open>TypeError\<close> inside the promise: the run is rejected with it, no handler takes
  the rejection, and no error tree is written (\<open>isValidating\<close> stays set).
\<close>

theorem validateField_needs_registration:
  "(\<forall>fns f. map_of (fieldsOf c) field = Some fns \<and> validate fns = Some f \<longrightarrow>
      runSingleFieldLevelValidation c field v = newPromiseResolve (f v)) \<and>
   (\<not> hasValidate c field \<longrightarrow>
      runSingleFieldLevelValidation c field v = Rejected typeError \<and>
      validateField c field = (setState (\<lambda>s. s\<lparr>isValidating := True\<rparr>) c, Some typeError))"
proof (intro conjI allI impI)
  fix fns f
  assume "map_of (fieldsOf c) field = Some fns \<and> validate fns = Some f"
  then show "runSingleFieldLevelValidation c field v = newPromiseResolve (f v)"
    by (simp add: runSingleFieldLevelValidation_def)
next
  assume no: "\<not> hasValidate c field"
  then show "runSingleFieldLevelValidation c field v = Rejected typeError"
    by (auto simp: runSingleFieldLevelValidation_def hasValidate_def split: option.splits)
next
  assume no: "\<not> hasValidate c field"
  have same: "fieldsOf (setState (\<lambda>s. s\<lparr>isValidating := True\<rparr>) c) = fieldsOf c"
    by (simp add: setState_def)
  have "runSingleFieldLevelValidation (setState (\<lambda>s. s\<lparr>isValidating := True\<rparr>) c) field
          (getIn (formValues (state c)) field) = Rejected typeError"
    using no by (auto simp: runSingleFieldLevelValidation_def hasValidate_def same split: option.splits)
  then show "validateField c field = (setState (\<lambda>s. s\<lparr>isValidating := True\<rparr>) c, Some typeError)"
    by (simp add: validateField_def Let_def)
qed

theorem validateField_needs_registration_witness:
  "runSingleFieldLevelValidation
      (registerField ''email'' \<lparr>validate = Some requiredValidator\<rparr> exampleForm) ''email'' (JStr [])
     = Fulfilled (JStr ''required'') \<and>
   \<not> hasValidate exampleForm ''email'' \<and>
   runSingleFieldLevelValidation exampleForm ''email'' (JStr []) = Rejected typeError \<and>
   snd (validateField exampleForm ''email'') = Some typeError \<and>
   errors (state (fst (validateField exampleForm ''email''))) = errors (state exampleForm)"
proof -
  have reg: "map_of (fieldsOf (registerField ''email'' \<lparr>validate = Some requiredValidator\<rparr> exampleForm)) ''email''
               = Some \<lparr>validate = Some requiredValidator\<rparr>
             \<and> validate \<lparr>validate = Some requiredValidator\<rparr> = Some requiredValidator"
    by (simp add: registerField_def exampleForm_eq newFormik_def)
  have no: "\<not> hasValidate exampleForm ''email''"
    by (simp add: hasValidate_def exampleForm_eq newFormik_def)
  show ?thesis
    using reg no
      validateField_needs_registration[of "registerField ''email'' \<lparr>validate = Some requiredValidator\<rparr> exampleForm" "''email''" "JStr []"]
      validateField_needs_registration[of exampleForm "''email''" "JStr []"]
    by (simp add: requiredValidator_def setState_def)
qed

section \<open>Change events: the coerced value\<close>

lemma executeChange_event_state:
  assumes "targetField maybePath t = Some f" and "f \<noteq> []"
  shows "map_sum id (\<lambda>r. formValues (state (fst r))) (executeChange pf c (ChangeEvent t) maybePath)
           = setIn (formValues (state c)) f (coerceValue pf t)"
  using assms
  by (cases "setIn (formValues (state c)) f (coerceValue pf t)")
     (simp_all add: executeChange_def Let_def setState_def runValidations_begin_def)

text \<open>
  C8. A change event whose target has a name (or, failing that, an id) makes
  \<open>handleChange\<close> write, at the path that name gives, the value coerced by the input
  type: for a type matching \<open>number\<close> or \<open>range\<close> the float parse of the value, or
  the empty string when the parse is \<open>NaN\<close>; otherwise, for a type matching
  \<open>checkbox\<close>, the checked flag; otherwise the raw value. The values of the state
  after the call are the tree this write returns; when the write raises (the path is
  in conflict with the values), \<open>handleChange\<close> raises the same error.
\<close>

theorem handleChange_writes_coerced_value:
  assumes "targetField None t = Some f" and "f \<noteq> []"
  shows "map_sum id (\<lambda>r. formValues (state (fst r))) (handleChange pf c t)
           = setIn (formValues (state c)) f
               (if isNumberOrRange (target_type t)
                then (if pf (target_value t) = NaN then JStr [] else JNum (pf (target_value t)))
                else if isCheckbox (target_type t) then target_checked t
                else target_value t) \<and>
         (truthyName (target_name t) \<longrightarrow> target_name t = Some f) \<and>
         (\<not> truthyName (target_name t) \<longrightarrow> target_id t = Some f)"
proof (intro conjI)
  have "map_sum id (\<lambda>r. formValues (state (fst r))) (handleChange pf c t)
          = setIn (formValues (state c)) f (coerceValue pf t)"
    unfolding handleChange_def using assms by (rule executeChange_event_state)
  then show "map_sum id (\<lambda>r. formValues (state (fst r))) (handleChange pf c t)
           = setIn (formValues (state c)) f
               (if isNumberOrRange (target_type t)
                then (if pf (target_value t) = NaN then JStr [] else JNum (pf (target_value t)))
                else if isCheckbox (target_type t) then target_checked t
                else target_value t)"
    by (simp add: coerceValue_def isNaN_def Let_def)
next
  show "truthyName (target_name t) \<longrightarrow> target_name t = Some f"
    using assms(1) by (auto simp: targetField_def truthyName_def split: option.splits if_splits)
next
  show "\<not> truthyName (target_name t) \<longrightarrow> target_id t = Some f"
    using assms(1) by (auto simp: targetField_def truthyName_def split: option.splits if_splits)
qed

lemma handleChange_without_identifier:
  assumes "\<not> truthyName (target_name t)" and "\<not> truthyName (target_id t)"
  shows "handleChange pf c t = Inr (c, None)"
  using assms
  by (auto simp: handleChange_def executeChange_def targetField_def truthyName_def Let_def
      split: option.splits)

lemma occurs_number: "isNumberOrRange (Some ''number'')"
  by (simp add: isNumberOrRange_def testString_def)

theorem handleChange_writes_coerced_value_witness:
  "targetField None (ageTarget ''42'') = Some ''age'' \<and> ''age'' \<noteq> [] \<and>
   map_sum id (\<lambda>r. formValues (state (fst r)))
       (handleChange sampleParseFloat exampleForm (ageTarget ''42''))
     = Inr (JObj [(''name'', JStr ''jared''), (''age'', JNum (Finite 42))]) \<and>
   map_sum id (\<lambda>r. formValues (state (fst r)))
       (handleChange sampleParseFloat exampleForm (ageTarget ''abc''))
     = Inr (JObj [(''name'', JStr ''jared''), (''age'', JStr [])])"
proof -
  have f: "targetField None (ageTarget str) = Some ''age''" for str
    by (simp add: targetField_def ageTarget_def truthyName_def)
  have ne: "''age'' \<noteq> []" by simp
  have ty: "isNumberOrRange (target_type (ageTarget str))" for str
    by (simp add: ageTarget_def occurs_number)
  have tv: "target_value (ageTarget str) = JStr str" for str
    by (simp add: ageTarget_def)
  have vals: "formValues (state exampleForm) = JObj [(''name'', JStr ''jared'')]"
    by (simp add: exampleForm_eq newFormik_def exampleProps_def)
  have set: "setIn (JObj [(''name'', JStr ''jared'')]) ''age'' x
              = Inr (JObj [(''name'', JStr ''jared''), (''age'', x)])" for x
    by (simp add: setIn_def toPath_def isSep_def)
  have p1: "sampleParseFloat (JStr ''42'') = Finite 42" by (simp add: sampleParseFloat_def)
  have p2: "sampleParseFloat (JStr ''abc'') = NaN" by (simp add: sampleParseFloat_def)
  from handleChange_writes_coerced_value[OF f[of "''42''"] ne, of sampleParseFloat exampleForm]
  have a: "map_sum id (\<lambda>r. formValues (state (fst r)))
       (handleChange sampleParseFloat exampleForm (ageTarget ''42''))
     = Inr (JObj [(''name'', JStr ''jared''), (''age'', JNum (Finite 42))])"
    by (simp only: ty tv vals set p1 if_True) simp
  from handleChange_writes_coerced_value[OF f[of "''abc''"] ne, of sampleParseFloat exampleForm]
  have b: "map_sum id (\<lambda>r. formValues (state (fst r)))
       (handleChange sampleParseFloat exampleForm (ageTarget ''abc''))
     = Inr (JObj [(''name'', JStr ''jared''), (''age'', JStr [])])"
    by (simp only: ty tv vals set p2 if_True) simp
  show ?thesis using f[of "''42''"] a b by simp
qed

section \<open>Reset\<close>


lemma resetForm_state:
  "state (resetForm nextValues c) =
     (state c)\<lparr>isSubmitting := False, isValidating := False, errors := JObj [], touched := JObj [],
       status := JUndefined,
       formValues := (if truthy nextValues then nextValues else initialValues (state c)),
       submitCount := 0\<rparr>"
  by (simp add: resetForm_def setState_def resetFormState_def)

lemma resetForm_keeps_initialValues:
  "initialValues (state (resetForm nextValues c)) = initialValues (state c)"
  by (simp add: resetForm_state)

lemma resetForm_twice: "resetForm nextValues (resetForm nextValues c) = resetForm nextValues c"
  by (simp add: resetForm_def setState_def resetFormState_def)

lemma getDerivedStateFromProps_sets_initialValues:
  assumes "enableReinitialize nextProps"
    and "\<not> isEqual (initialValues prevState) (props_initialValues nextProps)"
  shows "initialValues (getDerivedStateFromProps nextProps prevState) = props_initialValues nextProps \<and>
         formValues (getDerivedStateFromProps nextProps prevState) = props_initialValues nextProps"
  using assms by (simp add: getDerivedStateFromProps_def resetFormState_def)

text \<open>
  C5 states that \<open>resetForm(nextValues)\<close> leaves \<open>values\<close> and \<open>initialValues\<close>
  both equal to \<open>nextValues\<close>, so that the form is not dirty after a reset. The
  partial state of \<open>resetFormState\<close> has no \<open>initialValues\<close> slot: on a form
  started with \<open>{name: "jared"}\<close>, \<open>resetForm({name: "ian"})\<close> sets the values and
  keeps the initial values, and the form is dirty.
\<close>

theorem resetForm_nextValues_leaves_form_dirty:
  "formValues (state (resetForm (JObj [(''name'', JStr ''ian'')]) exampleForm))
     = JObj [(''name'', JStr ''ian'')] \<and>
   initialValues (state (resetForm (JObj [(''name'', JStr ''ian'')]) exampleForm))
     = JObj [(''name'', JStr ''jared'')] \<and>
   dirty (resetForm (JObj [(''name'', JStr ''ian'')]) exampleForm)"
  by (simp add: dirty_def resetForm_state exampleForm_eq newFormik_def exampleProps_def)

lemma resetForm_default_is_clean:
  "formValues (state (resetForm JUndefined exampleForm)) = JObj [(''name'', JStr ''jared'')] \<and>
   \<not> dirty (resetForm JUndefined exampleForm)"
  by (simp add: dirty_def resetForm_state exampleForm_eq newFormik_def exampleProps_def)

section \<open>Schema failures\<close>


text \<open>
  C3 states that the first message of a path is kept for every path, nested ones
  included. \<open>yupToFormErrors\<close> looks the path up as one raw key of the error tree
  and writes it with \<open>setIn\<close>: for the path \<open>a.b\<close> the raw key is never present, so
  the second failure overwrites the first.
\<close>

theorem yupToFormErrors_nested_path_last_wins:
  "yupToFormErrors [\<lparr>path = ''a.b'', message = JStr ''first''\<rparr>,
                    \<lparr>path = ''a.b'', message = JStr ''second''\<rparr>]
     = Inr (JObj [(''a'', JObj [(''b'', JStr ''second'')])]) \<and>
   map_sum id (\<lambda>errs. getIn errs ''a.b'')
     (yupToFormErrors [\<lparr>path = ''a.b'', message = JStr ''first''\<rparr>,
                       \<lparr>path = ''a.b'', message = JStr ''second''\<rparr>])
     = Inr (JStr ''second'')"
  by (simp add: yupToFormErrors_def setIn_def getIn_def toPath_def isSep_def isIndex_def isDigit_def)

lemma yupToFormErrors_top_level_first_wins:
  "map_sum id (\<lambda>errs. getIn errs ''name'')
     (yupToFormErrors [\<lparr>path = ''name'', message = JStr ''too short''\<rparr>,
                       \<lparr>path = ''name'', message = JStr ''also bad''\<rparr>])
     = Inr (JStr ''too short'')"
  by (simp add: yupToFormErrors_def setIn_def getIn_def toPath_def isSep_def)

section \<open>Submit gating\<close>

lemma hasValidate_setState: "hasValidate (setState g c) = hasValidate c"
  by (rule ext) (simp add: hasValidate_def setState_def)

lemma runSingle_setState:
  "runSingleFieldLevelValidation (setState g c) = runSingleFieldLevelValidation c"
  by (rule ext)+ (simp add: runSingleFieldLevelValidation_def setState_def)

lemma fieldKeys_setState:
  "fieldKeysWithValidation (setState g c) = fieldKeysWithValidation c"
  by (simp add: fieldKeysWithValidation_def hasValidate_setState) (simp add: setState_def)

lemma runValidations_sources_setState:
  "runValidations_sources (setState g c) vals = runValidations_sources c vals"
proof -
  have p: "props (setState g c) = props c" by (simp add: setState_def)
  have "runFieldLevelValidations (setState g c) vals = runFieldLevelValidations c vals"
    by (simp add: runFieldLevelValidations_def fieldValidations_def fieldKeys_setState
        runSingle_setState)
  moreover have "runValidationSchema (setState g c) vals = runValidationSchema c vals"
    by (simp add: runValidationSchema_def p)
  moreover have "runValidateHandler (setState g c) vals = runValidateHandler c vals"
    by (simp add: runValidateHandler_def p)
  ultimately show ?thesis by (simp add: runValidations_sources_def p)
qed

lemma submitForm_then_valid:
  "onSubmitCalls (fst (submitForm_then c (JObj []))) = onSubmitCalls c @ [formValues (state c)] \<and>
   state (fst (submitForm_then c (JObj []))) = fst (onSubmit (props c) (formValues (state c)) (state c)) \<and>
   snd (submitForm_then c (JObj [])) =
     (case snd (onSubmit (props c) (formValues (state c)) (state c)) of
        None \<Rightarrow> Fulfilled JUndefined | Some e \<Rightarrow> Rejected e)"
  by (cases "onSubmit (props c) (formValues (state c)) (state c)")
     (auto simp: submitForm_then_def executeSubmit_def split: option.splits)

lemma submitForm_then_invalid:
  "kvs \<noteq> [] \<Longrightarrow>
   submitForm_then c (JObj kvs) = (setState (\<lambda>s. s\<lparr>isSubmitting := False\<rparr>) c, Fulfilled JUndefined)"
  by (simp add: submitForm_then_def)

lemma runValidations_settled:
  assumes "promiseAll (runValidations_sources c vals) = Fulfilled results"
  shows "runValidations c vals =
           (fst (runValidations_then (runValidations_begin c) results), Fulfilled (deepmerge_all results))"
proof -
  have "promiseAll (runValidations_sources (runValidations_begin c) vals) = Fulfilled results"
    using assms by (simp add: runValidations_begin_def runValidations_sources_setState)
  then show ?thesis
    by (simp add: runValidations_def Let_def runValidations_then_def)
qed

lemma runValidations_unsettled:
  assumes "promiseAll (runValidations_sources c vals) = Pending"
  shows "runValidations c vals = (runValidations_begin c, Pending)"
proof -
  have "promiseAll (runValidations_sources (runValidations_begin c) vals) = Pending"
    using assms by (simp add: runValidations_begin_def runValidations_sources_setState)
  then show ?thesis
    by (simp add: runValidations_def Let_def)
qed

lemma submitForm_unfold:
  "submitForm c =
     (case runValidations (setState (\<lambda>prevState. prevState
                  \<lparr>touched := setNestedObjectValues (formValues prevState) (JBool True),
                   isSubmitting := True,
                   submitCount := submitCount prevState + 1\<rparr>) c) (formValues (state c)) of
           (c1, Fulfilled combinedErrors) \<Rightarrow> submitForm_then c1 combinedErrors
         | (c1, Rejected e) \<Rightarrow> (c1, Rejected e)
         | (c1, Pending) \<Rightarrow> (c1, Pending))"
  by (simp add: submitForm_def Let_def setState_def)

lemma submitForm_settled:
  assumes "promiseAll (runValidations_sources c (formValues (state c))) = Fulfilled results"
  shows "submitForm c =
           submitForm_then (fst (runValidations_then (submitForm_begin c) results)) (deepmerge_all results)"
proof -
  define c0 where "c0 = setState (\<lambda>prevState. prevState
                  \<lparr>touched := setNestedObjectValues (formValues prevState) (JBool True),
                   isSubmitting := True,
                   submitCount := submitCount prevState + 1\<rparr>) c"
  have b: "runValidations_begin c0 = submitForm_begin c"
    unfolding c0_def submitForm_begin_def ..
  have "promiseAll (runValidations_sources c0 (formValues (state c))) = Fulfilled results"
    using assms unfolding c0_def by (simp only: runValidations_sources_setState)
  from runValidations_settled[OF this]
  have "runValidations c0 (formValues (state c))
          = (fst (runValidations_then (submitForm_begin c) results), Fulfilled (deepmerge_all results))"
    by (simp only: b)
  then show ?thesis
    unfolding submitForm_unfold c0_def[symmetric] by simp
qed

lemma submitForm_begin_fields:
  "onSubmitCalls (submitForm_begin c) = onSubmitCalls c \<and>
   formValues (state (submitForm_begin c)) = formValues (state c) \<and>
   props (submitForm_begin c) = props c \<and>
   isSubmitting (state (submitForm_begin c)) \<and>
   submitCount (state (submitForm_begin c)) = submitCount (state c) + 1"
  by (simp add: submitForm_begin_def runValidations_begin_def setState_def)

lemma runValidations_then_fields:
  "onSubmitCalls (fst (runValidations_then c results)) = onSubmitCalls c \<and>
   formValues (state (fst (runValidations_then c results))) = formValues (state c) \<and>
   props (fst (runValidations_then c results)) = props c"
  by (simp add: runValidations_then_def setState_def Let_def)

text \<open>
  C1. \<open>submitForm()\<close> runs the full validation pipeline. When the pipeline settles
  with the results of its three sources and their merge is the error tree \<open>kvs\<close>:
  if the tree is empty, the submit callback is invoked exactly once, with the current
  values and acting on the current state, and the returned promise settles with the
  callback's outcome; if it is not empty, \<open>isSubmitting\<close> is set to false, the
  callback is not invoked, and the promise is fulfilled. The same decision is taken
  by the chained callback on whatever the component is by then (\<open>c'\<close>).
\<close>

theorem submitForm_gating:
  assumes settles: "promiseAll (runValidations_sources c (formValues (state c))) = Fulfilled results"
    and tree: "deepmerge_all results = JObj kvs"
  shows "(kvs = [] \<longrightarrow>
            onSubmitCalls (fst (submitForm c)) = onSubmitCalls c @ [formValues (state c)] \<and>
            state (fst (submitForm c)) =
              fst (onSubmit (props c) (formValues (state c))
                     (state (fst (runValidations_then (submitForm_begin c) results)))) \<and>
            snd (submitForm c) \<noteq> Pending) \<and>
         (kvs \<noteq> [] \<longrightarrow>
            onSubmitCalls (fst (submitForm c)) = onSubmitCalls c \<and>
            \<not> isSubmitting (state (fst (submitForm c))) \<and>
            snd (submitForm c) = Fulfilled JUndefined) \<and>
         (\<forall>c'. onSubmitCalls (fst (submitForm_then c' (JObj []))) = onSubmitCalls c' @ [formValues (state c')]) \<and>
         (\<forall>c'. kvs \<noteq> [] \<longrightarrow>
            onSubmitCalls (fst (submitForm_then c' (JObj kvs))) = onSubmitCalls c' \<and>
            \<not> isSubmitting (state (fst (submitForm_then c' (JObj kvs)))))"
proof (intro conjI impI allI)
  let ?c2 = "fst (runValidations_then (submitForm_begin c) results)"
  have eq: "submitForm c = submitForm_then ?c2 (JObj kvs)"
    using submitForm_settled[OF settles] tree by simp
  have calls: "onSubmitCalls ?c2 = onSubmitCalls c"
    and vals: "formValues (state ?c2) = formValues (state c)"
    and pr: "props ?c2 = props c"
    by (simp_all add: runValidations_then_fields submitForm_begin_fields)
  {
    assume "kvs = []"
    with eq have e: "submitForm c = submitForm_then ?c2 (JObj [])" by simp
    show "onSubmitCalls (fst (submitForm c)) = onSubmitCalls c @ [formValues (state c)]"
      using submitForm_then_valid[of ?c2] by (simp add: e calls vals)
    show "state (fst (submitForm c)) =
              fst (onSubmit (props c) (formValues (state c)) (state ?c2))"
      using submitForm_then_valid[of ?c2] by (simp add: e vals pr)
    show "snd (submitForm c) \<noteq> Pending"
      using submitForm_then_valid[of ?c2] by (simp add: e split: option.splits)
  }
  {
    assume ne: "kvs \<noteq> []"
    show "onSubmitCalls (fst (submitForm c)) = onSubmitCalls c"
      by (simp add: eq submitForm_then_invalid[OF ne] setState_def calls)
    show "\<not> isSubmitting (state (fst (submitForm c)))"
      by (simp add: eq submitForm_then_invalid[OF ne] setState_def)
    show "snd (submitForm c) = Fulfilled JUndefined"
      by (simp add: eq submitForm_then_invalid[OF ne])
  }
  fix c'
  show "onSubmitCalls (fst (submitForm_then c' (JObj []))) = onSubmitCalls c' @ [formValues (state c')]"
    using submitForm_then_valid[of c'] by simp
  {
    assume ne: "kvs \<noteq> []"
    show "onSubmitCalls (fst (submitForm_then c' (JObj kvs))) = onSubmitCalls c'"
      by (simp add: submitForm_then_invalid[OF ne] setState_def)
    show "\<not> isSubmitting (state (fst (submitForm_then c' (JObj kvs))))"
      by (simp add: submitForm_then_invalid[OF ne] setState_def)
  }
qed

lemma submitForm_pending:
  assumes "promiseAll (runValidations_sources c (formValues (state c))) = Pending"
  shows "submitForm c = (submitForm_begin c, Pending)"
proof -
  define c0 where "c0 = setState (\<lambda>prevState. prevState
                  \<lparr>touched := setNestedObjectValues (formValues prevState) (JBool True),
                   isSubmitting := True,
                   submitCount := submitCount prevState + 1\<rparr>) c"
  have b: "runValidations_begin c0 = submitForm_begin c"
    unfolding c0_def submitForm_begin_def ..
  have "promiseAll (runValidations_sources c0 (formValues (state c))) = Pending"
    using assms unfolding c0_def by (simp only: runValidations_sources_setState)
  from runValidations_unsettled[OF this]
  have "runValidations c0 (formValues (state c)) = (submitForm_begin c, Pending)"
    by (simp only: b)
  then show ?thesis
    unfolding submitForm_unfold c0_def[symmetric] by simp
qed

lemma exampleForm_sources:
  "promiseAll (runValidations_sources exampleForm vals) = Fulfilled [JObj [], JObj [], JObj []]"
  by (simp add: runValidations_sources_def runFieldLevelValidations_def fieldValidations_def
      fieldKeysWithValidation_def reduceFieldErrors_def fieldErrorStep_def
      exampleForm_eq newFormik_def exampleProps_def)

lemma emailForm_keys: "fieldKeysWithValidation emailForm = [''email'']"
  by (simp add: fieldKeysWithValidation_def hasValidate_def emailForm_def registerField_def
      exampleForm_eq newFormik_def)

lemma emailForm_single:
  "runSingleFieldLevelValidation emailForm ''email'' v = newPromiseResolve (requiredValidator v)"
  by (simp add: runSingleFieldLevelValidation_def emailForm_def registerField_def
      exampleForm_eq newFormik_def)

lemma emailForm_values: "formValues (state emailForm) = JObj [(''name'', JStr ''jared'')]"
  by (simp add: emailForm_def registerField_def exampleForm_eq newFormik_def exampleProps_def)

lemma emailForm_props: "props emailForm = exampleProps"
  by (simp add: emailForm_def registerField_def exampleForm_eq newFormik_def)

lemma sentinel_neq: "''required'' \<noteq> sentinel"
  by (simp add: sentinel_def)

lemma emailForm_field_errors:
  "runFieldLevelValidations emailForm (JObj [(''name'', JStr ''jared'')])
     = Fulfilled (JObj [(''email'', JStr ''required'')])"
proof -
  have g: "getIn (JObj [(''name'', JStr ''jared'')]) ''email'' = JUndefined"
    by (simp add: getIn_def toPath_def isSep_def)
  have s: "setIn (JObj []) ''email'' (JStr ''required'') = Inr (JObj [(''email'', JStr ''required'')])"
    by (simp add: setIn_def toPath_def isSep_def)
  show ?thesis
    by (simp add: runFieldLevelValidations_def fieldValidations_def emailForm_keys emailForm_single
        g requiredValidator_def reduceFieldErrors_def fieldErrorStep_def sentinel_neq s)
qed

lemma emailForm_sources:
  "promiseAll (runValidations_sources emailForm (JObj [(''name'', JStr ''jared'')]))
     = Fulfilled [JObj [(''email'', JStr ''required'')], JObj [], JObj []]"
  by (simp add: runValidations_sources_def emailForm_field_errors emailForm_props exampleProps_def)

theorem submitForm_gating_witness:
  "promiseAll (runValidations_sources exampleForm (formValues (state exampleForm)))
     = Fulfilled [JObj [], JObj [], JObj []] \<and>
   deepmerge_all [JObj [], JObj [], JObj []] = JObj [] \<and>
   onSubmitCalls (fst (submitForm exampleForm)) = [JObj [(''name'', JStr ''jared'')]] \<and>
   snd (submitForm exampleForm) \<noteq> Pending \<and>
   promiseAll (runValidations_sources emailForm (formValues (state emailForm)))
     = Fulfilled [JObj [(''email'', JStr ''required'')], JObj [], JObj []] \<and>
   deepmerge_all [JObj [(''email'', JStr ''required'')], JObj [], JObj []]
     = JObj [(''email'', JStr ''required'')] \<and>
   onSubmitCalls (fst (submitForm emailForm)) = [] \<and>
   \<not> isSubmitting (state (fst (submitForm emailForm)))"
proof -
  have m1: "deepmerge_all [JObj [], JObj [], JObj []] = JObj []"
    by (simp add: deepmerge_all_def)
  have m2: "deepmerge_all [JObj [(''email'', JStr ''required'')], JObj [], JObj []]
              = JObj [(''email'', JStr ''required'')]"
    by (simp add: deepmerge_all_def)
  have s2: "promiseAll (runValidations_sources emailForm (formValues (state emailForm)))
     = Fulfilled [JObj [(''email'', JStr ''required'')], JObj [], JObj []]"
    by (simp add: emailForm_values emailForm_sources)
  have v1: "formValues (state exampleForm) = JObj [(''name'', JStr ''jared'')]"
    by (simp add: exampleForm_eq newFormik_def exampleProps_def)
  have c1: "onSubmitCalls exampleForm = []" by (simp add: exampleForm_eq newFormik_def)
  have c2: "onSubmitCalls emailForm = []"
    by (simp add: emailForm_def registerField_def exampleForm_eq newFormik_def)
  show ?thesis
    using submitForm_gating[OF exampleForm_sources m1] submitForm_gating[OF s2 m2]
    by (simp add: exampleForm_sources m1 m2 s2 v1 c1 c2)
qed

section \<open>The field-level validation batch\<close>

lemma thenCatch_settled: "thenCatch p = (if p = Pending then Pending else Fulfilled (settledValue p))"
  by (cases p) simp_all

lemma promiseAll_caught:
  "promiseAll (map (\<lambda>f. thenCatch (G f)) ks) =
     (if \<forall>f\<in>set ks. G f \<noteq> Pending then Fulfilled (map (\<lambda>f. settledValue (G f)) ks) else Pending)"
proof (induction ks)
  case Nil
  show ?case by simp
next
  case (Cons k ks)
  show ?case
  proof (cases "G k = Pending")
    case True
    then show ?thesis using Cons.IH by simp
  next
    case False
    then have "thenCatch (G k) = Fulfilled (settledValue (G k))" by (simp add: thenCatch_settled)
    then show ?thesis using Cons.IH False by simp
  qed
qed

lemma fieldValidations_runs:
  "fieldKeysWithValidation c \<noteq> [] \<Longrightarrow>
   fieldValidations c vals = map (\<lambda>f. thenCatch (fieldRun c vals f)) (fieldKeysWithValidation c)"
  by (simp add: fieldValidations_def fieldRun_def)


lemma addFieldError_eq:
  "addFieldError prev k cur =
     (if cur = JStr sentinel then Inr prev else if truthy cur then setIn prev k cur else Inr prev)"
  by (simp add: addFieldError_def fieldErrorStep_def)

lemma fieldErrorStep_at:
  "i < length keys \<Longrightarrow> fieldErrorStep keys prev (cur, i) = addFieldError prev (keys ! i) cur"
  by (simp add: addFieldError_eq fieldErrorStep_def)

lemma reduce_from:
  "keys = pre @ ks \<Longrightarrow> reduceFrom keys init (map h ks) (length pre) = addFieldErrors h init ks"
proof (induction ks arbitrary: pre init)
  case Nil
  show ?case by simp
next
  case (Cons k ks)
  have at: "keys ! length pre = k" "length pre < length keys"
    using Cons.prems by simp_all
  have step: "fieldErrorStep keys init (h k, length pre) = addFieldError init k (h k)"
    using fieldErrorStep_at[OF at(2), of init "h k"] at(1) by simp
  have k1: "keys = (pre @ [k]) @ ks" using Cons.prems by simp
  have IH: "reduceFrom keys init' (map h ks) (Suc (length pre)) = addFieldErrors h init' ks" for init'
    using Cons.IH[OF k1, of init'] by simp
  show ?case by (simp add: step IH split: sum.splits)
qed

lemma reduceFieldErrors_keys:
  "reduceFieldErrors keys (map h keys) = addFieldErrors h (JObj []) keys"
  using reduce_from[of keys "[]" keys "JObj []" h] by (simp add: reduceFieldErrors_def)

lemma runFieldLevelValidations_settled:
  assumes "\<forall>f\<in>set (fieldKeysWithValidation c). fieldRun c vals f \<noteq> Pending"
  shows "runFieldLevelValidations c vals =
           (case reduceFieldErrors (fieldKeysWithValidation c)
                   (map (\<lambda>k. settledValue (fieldRun c vals k)) (fieldKeysWithValidation c)) of
              Inl e \<Rightarrow> Rejected e
            | Inr t \<Rightarrow> Fulfilled t)"
proof (cases "fieldKeysWithValidation c = []")
  case True
  then show ?thesis
    by (simp add: runFieldLevelValidations_def fieldValidations_def reduceFieldErrors_def
        fieldErrorStep_def)
next
  case False
  show ?thesis
    unfolding runFieldLevelValidations_def fieldValidations_runs[OF False] promiseAll_caught
    using assms by (simp split: sum.splits)
qed

lemma runFieldLevelValidations_unsettled:
  assumes "\<not> (\<forall>f\<in>set (fieldKeysWithValidation c). fieldRun c vals f \<noteq> Pending)"
  shows "runFieldLevelValidations c vals = Pending"
proof -
  from assms have ne: "fieldKeysWithValidation c \<noteq> []" by auto
  show ?thesis
    unfolding runFieldLevelValidations_def fieldValidations_runs[OF ne] promiseAll_caught
    by (simp only: assms if_False promiseThenTry.simps)
qed

lemma runFieldLevelValidations_closed:
  "runFieldLevelValidations c vals =
     (if \<forall>f\<in>set (fieldKeysWithValidation c). fieldRun c vals f \<noteq> Pending
      then (case addFieldErrors (\<lambda>k. settledValue (fieldRun c vals k)) (JObj [])
                   (fieldKeysWithValidation c) of
              Inl e \<Rightarrow> Rejected e
            | Inr t \<Rightarrow> Fulfilled t)
      else Pending)"
proof (cases "\<forall>f\<in>set (fieldKeysWithValidation c). fieldRun c vals f \<noteq> Pending")
  case True
  show ?thesis
    using runFieldLevelValidations_settled[OF True] by (simp only: reduceFieldErrors_keys if_P[OF True])
next
  case False
  show ?thesis
    using runFieldLevelValidations_unsettled[OF False] by (simp only: if_not_P[OF False])
qed

lemma fieldsOf_unregister:
  "map fst (fieldsOf (unregisterField f c)) = removeAll f (map fst (fieldsOf c))"
  by (simp add: unregisterField_def delete_keys)

lemma hasValidate_unregister:
  "hasValidate (unregisterField f c) g = (g \<noteq> f \<and> hasValidate c g)"
  by (simp add: hasValidate_def unregisterField_def delete_conv')

lemma fieldKeys_unregister:
  "fieldKeysWithValidation (unregisterField f c) = removeAll f (fieldKeysWithValidation c)"
proof -
  have "filter (hasValidate (unregisterField f c)) (removeAll f ks)
          = removeAll f (filter (hasValidate c) ks)" for ks
    by (induction ks) (auto simp: hasValidate_unregister)
  then show ?thesis by (simp add: fieldKeysWithValidation_def fieldsOf_unregister)
qed

lemma fieldRun_unregister:
  "g \<noteq> f \<Longrightarrow> fieldRun (unregisterField f c) vals g = fieldRun c vals g"
  by (simp add: fieldRun_def runSingleFieldLevelValidation_def unregisterField_def delete_conv')

lemma addFieldErrors_skip:
  assumes "\<And>p. addFieldError p f (h f) = Inr p"
  shows "addFieldErrors h init (removeAll f ks) = addFieldErrors h init ks"
proof (induction ks arbitrary: init)
  case Nil
  show ?case by simp
next
  case (Cons a ks)
  show ?case
  proof (cases "a = f")
    case True
    then show ?thesis using Cons.IH[of init] assms by simp
  next
    case False
    then show ?thesis using Cons.IH by (simp split: sum.splits)
  qed
qed

lemma addFieldErrors_agree:
  assumes "\<And>k. k \<in> set ks \<Longrightarrow> h k = h' k"
  shows "addFieldErrors h init ks = addFieldErrors h' init ks"
  using assms by (induction ks arbitrary: init) (simp_all split: sum.splits)


lemma silent_field_can_be_dropped:
  assumes settled: "fieldRun c vals f \<noteq> Pending"
    and silent: "settledValue (fieldRun c vals f) = JStr sentinel \<or> \<not> truthy (settledValue (fieldRun c vals f))"
  shows "runFieldLevelValidations c vals = runFieldLevelValidations (unregisterField f c) vals"
proof -
  let ?ks = "fieldKeysWithValidation c"
  let ?h = "\<lambda>k. settledValue (fieldRun c vals k)"
  let ?h' = "\<lambda>k. settledValue (fieldRun (unregisterField f c) vals k)"
  have pend: "(\<forall>g\<in>set (removeAll f ?ks). fieldRun (unregisterField f c) vals g \<noteq> Pending)
                = (\<forall>g\<in>set ?ks. fieldRun c vals g \<noteq> Pending)"
    using settled by (auto simp: fieldRun_unregister)
  have id: "addFieldError p f (?h f) = Inr p" for p
    using silent by (auto simp: addFieldError_eq)
  have "addFieldErrors ?h' (JObj []) (removeAll f ?ks) = addFieldErrors ?h (JObj []) (removeAll f ?ks)"
    by (rule addFieldErrors_agree) (simp add: fieldRun_unregister)
  also have "\<dots> = addFieldErrors ?h (JObj []) ?ks"
    using id by (rule addFieldErrors_skip)
  finally have fold: "addFieldErrors ?h' (JObj []) (removeAll f ?ks) = addFieldErrors ?h (JObj []) ?ks" .
  show ?thesis
    unfolding runFieldLevelValidations_closed[of c] runFieldLevelValidations_closed[of "unregisterField f c"]
      fieldKeys_unregister pend fold ..
qed

lemma rejectingForm_keys: "fieldKeysWithValidation (rejectingForm x) = [''email'']"
  by (simp add: fieldKeysWithValidation_def hasValidate_def rejectingForm_def registerField_def
      exampleForm_eq newFormik_def)

lemma rejectingForm_lookup:
  "map_of (fieldsOf (rejectingForm x)) ''email'' = Some \<lparr>validate = Some (rejectsWith x)\<rparr>"
  by (simp add: rejectingForm_def registerField_def exampleForm_eq newFormik_def)

lemma rejectingForm_run: "fieldRun (rejectingForm x) vals ''email'' = Rejected x"
  by (simp add: fieldRun_def runSingleFieldLevelValidation_def rejectingForm_lookup rejectsWith_def)


lemma unregistered_batch:
  "runFieldLevelValidations (unregisterField ''email'' (rejectingForm x)) vals = Fulfilled (JObj [])"
  by (simp add: runFieldLevelValidations_closed fieldKeys_unregister rejectingForm_keys)

lemma email_path: "toPath ''email'' = [''email'']"
  by (simp add: toPath_def isSep_def)

lemma validated_key:
  assumes "map_of (fieldsOf c) f = Some fns" and "validate fns = Some v"
  shows "f \<in> set (fieldKeysWithValidation c)"
proof -
  from assms(1) have "f \<in> fst ` set (fieldsOf c)" by (metis map_of_eq_None_iff option.distinct(1))
  then show ?thesis using assms by (simp add: fieldKeysWithValidation_def hasValidate_def)
qed

text \<open>
  C9. In the field-level batch a settled validator result adds an entry only if it is
  truthy and is not the reserved string \<open>DO_NOT_DELETE_YOU_WILL_BE_FIRED\<close>: the
  callback of the \<open>reduce\<close> returns the tree unchanged for the reserved string and for
  a falsy value, and writes the result at the field's key otherwise. Hence a field
  whose validator resolves or rejects with such a value contributes nothing: the batch
  is the batch without that field.
\<close>

theorem sentinel_or_falsy_result_adds_no_entry:
  "((cur = JStr sentinel \<or> \<not> truthy cur) \<longrightarrow> fieldErrorStep keys prev (cur, i) = Inr prev) \<and>
   (cur \<noteq> JStr sentinel \<and> truthy cur \<and> i < length keys \<longrightarrow>
      fieldErrorStep keys prev (cur, i) = setIn prev (keys ! i) cur) \<and>
   (fieldRun c vals f \<noteq> Pending \<and>
    (settledValue (fieldRun c vals f) = JStr sentinel \<or> \<not> truthy (settledValue (fieldRun c vals f))) \<longrightarrow>
      runFieldLevelValidations c vals = runFieldLevelValidations (unregisterField f c) vals)"
proof (intro conjI impI)
  assume "cur = JStr sentinel \<or> \<not> truthy cur"
  then show "fieldErrorStep keys prev (cur, i) = Inr prev"
    by (auto simp: fieldErrorStep_def)
next
  assume "cur \<noteq> JStr sentinel \<and> truthy cur \<and> i < length keys"
  then show "fieldErrorStep keys prev (cur, i) = setIn prev (keys ! i) cur"
    by (simp add: fieldErrorStep_def)
next
  assume "fieldRun c vals f \<noteq> Pending \<and>
    (settledValue (fieldRun c vals f) = JStr sentinel \<or> \<not> truthy (settledValue (fieldRun c vals f)))"
  then show "runFieldLevelValidations c vals = runFieldLevelValidations (unregisterField f c) vals"
    using silent_field_can_be_dropped by blast
qed

theorem sentinel_or_falsy_result_adds_no_entry_witness:
  "fieldErrorStep [''email''] (JObj []) (JStr sentinel, 0) = Inr (JObj []) \<and>
   fieldErrorStep [''email''] (JObj []) (JStr ''required'', 0)
     = Inr (JObj [(''email'', JStr ''required'')]) \<and>
   fieldRun (rejectingForm (JStr sentinel)) sampleValues ''email'' = Rejected (JStr sentinel) \<and>
   runFieldLevelValidations (rejectingForm (JStr sentinel)) sampleValues = Fulfilled (JObj []) \<and>
   fieldRun (rejectingForm (JBool False)) sampleValues ''email'' = Rejected (JBool False) \<and>
   runFieldLevelValidations (rejectingForm (JBool False)) sampleValues = Fulfilled (JObj [])"
proof -
  have s: "setIn (JObj []) ''email'' (JStr ''required'') = Inr (JObj [(''email'', JStr ''required'')])"
    by (simp add: setIn_def email_path)
  have a: "fieldErrorStep [''email''] (JObj []) (JStr sentinel, 0) = Inr (JObj [])"
    using sentinel_or_falsy_result_adds_no_entry[where cur = "JStr sentinel" and keys = "[''email'']"
        and prev = "JObj []" and i = 0]
    by simp
  have b: "fieldErrorStep [''email''] (JObj []) (JStr ''required'', 0)
             = Inr (JObj [(''email'', JStr ''required'')])"
    using sentinel_or_falsy_result_adds_no_entry[where cur = "JStr ''required''" and keys = "[''email'']"
        and prev = "JObj []" and i = 0]
    by (simp add: sentinel_neq s)
  have c: "runFieldLevelValidations (rejectingForm (JStr sentinel)) sampleValues = Fulfilled (JObj [])"
    using sentinel_or_falsy_result_adds_no_entry[where c = "rejectingForm (JStr sentinel)"
        and vals = sampleValues and f = "''email''"]
    by (simp add: rejectingForm_run unregistered_batch)
  have d: "runFieldLevelValidations (rejectingForm (JBool False)) sampleValues = Fulfilled (JObj [])"
    using sentinel_or_falsy_result_adds_no_entry[where c = "rejectingForm (JBool False)"
        and vals = sampleValues and f = "''email''"]
    by (simp add: rejectingForm_run unregistered_batch)
  show ?thesis using a b c d by (simp add: rejectingForm_run)
qed




















section \<open>Merge precedence of the validation sources\<close>

lemma getPath_undefined: "getPath JUndefined ts = JUndefined"
  by (induction ts) simp_all

lemma deepmerge_leaf: "isLeaf b \<Longrightarrow> deepmerge a b = b"
  by (cases a; cases b) simp_all

lemma deepmerge_other_obj: "\<not> (\<exists>as. a = JObj as) \<Longrightarrow> deepmerge a (JObj bs) = JObj bs"
  by (cases a) auto

lemma deepmerge_other_arr: "\<not> (\<exists>as. a = JArr as) \<Longrightarrow> deepmerge a (JArr bs) = JArr bs"
  by (cases a) auto

lemma map_of_mapped:
  "map_of (map (\<lambda>(k, v). (k, g k v)) as) t = map_option (g t) (map_of as t)"
  by (induction as) auto

lemma map_of_fresh:
  "map_of (filter (\<lambda>(k, w). P k) bs) t = (if P t then map_of bs t else None)"
  by (induction bs) auto

lemma map_of_merged:
  "map_of (map (\<lambda>(k, v). (k, g k v)) as @ filter (\<lambda>(k, w). map_of as k = None) bs) t
     = (case map_of as t of Some v \<Rightarrow> Some (g t v) | None \<Rightarrow> map_of bs t)"
  by (simp add: map_of_append map_of_mapped map_of_fresh map_add_def split: option.splits)

lemma getProp_merged_obj:
  assumes "map_of bs t = Some w"
  shows "getProp (deepmerge (JObj as) (JObj bs)) t
           = (case map_of as t of Some v \<Rightarrow> deepmerge v w | None \<Rightarrow> w)"
proof -
  define g where "g = (\<lambda>k v. case map_of bs k of None \<Rightarrow> v | Some w \<Rightarrow> deepmerge v w)"
  have "deepmerge (JObj as) (JObj bs)
          = JObj (map (\<lambda>(k, v). (k, g k v)) as @ filter (\<lambda>(k, w). map_of as k = None) bs)"
    by (simp add: g_def)
  then have "getProp (deepmerge (JObj as) (JObj bs)) t
          = (case (case map_of as t of Some v \<Rightarrow> Some (g t v) | None \<Rightarrow> map_of bs t) of
               Some v \<Rightarrow> v | None \<Rightarrow> JUndefined)"
    by (simp only: getProp.simps map_of_merged)
  also have "\<dots> = (case map_of as t of Some v \<Rightarrow> deepmerge v w | None \<Rightarrow> w)"
    using assms by (simp add: g_def split: option.splits)
  finally show ?thesis .
qed

lemma nth_merged_arr:
  assumes "i < length bs"
  shows "i < length (map (\<lambda>(x, y). deepmerge x y) (zip as bs) @ drop (length bs) as @ drop (length as) bs) \<and>
         (map (\<lambda>(x, y). deepmerge x y) (zip as bs) @ drop (length bs) as @ drop (length as) bs) ! i
           = (if i < length as then deepmerge (as ! i) (bs ! i) else bs ! i)"
proof (cases "i < length as")
  case True
  then show ?thesis using assms by (simp add: nth_append)
next
  case False
  then have le: "length as \<le> i" by simp
  with assms have d: "drop (length bs) as = []" by simp
  have m: "min (length as) (length bs) = length as" using le assms by simp
  show ?thesis using False assms le by (simp add: nth_append d m)
qed

lemma later_leaf_wins_path:
  "isLeaf (getPath b ts) \<Longrightarrow> getPath (deepmerge a b) ts = getPath b ts"
proof (induction ts arbitrary: a b)
  case Nil
  then show ?case by (simp add: deepmerge_leaf)
next
  case (Cons t ts)
  have ne: "getProp b t \<noteq> JUndefined"
    using Cons.prems by (auto simp: getPath_undefined)
  show ?case
  proof (cases b)
    case (JObj bs)
    with ne obtain w where w: "map_of bs t = Some w"
      by (auto split: option.splits)
    then have bw: "getProp b t = w" using JObj by simp
    show ?thesis
    proof (cases a)
      case (JObj as)
      show ?thesis
      proof (cases "map_of as t")
        case None
        then show ?thesis using \<open>a = JObj as\<close> \<open>b = JObj bs\<close> getProp_merged_obj[OF w, of as] bw
          by simp
      next
        case (Some v)
        have "getPath (deepmerge v w) ts = getPath w ts"
          using Cons.IH[of w v] Cons.prems bw by simp
        then show ?thesis using \<open>a = JObj as\<close> \<open>b = JObj bs\<close> getProp_merged_obj[OF w, of as] Some bw
          by simp
      qed
    qed (simp_all add: \<open>b = JObj bs\<close>)
  next
    case (JArr bs)
    with ne have ix: "isIndex t" "indexOf t < length bs"
      by (auto split: if_splits)
    then have bw: "getProp b t = bs ! indexOf t" using JArr by simp
    show ?thesis
    proof (cases a)
      case (JArr as)
      note n = nth_merged_arr[OF ix(2), of as]
      show ?thesis
      proof (cases "indexOf t < length as")
        case True
        have "getPath (deepmerge (as ! indexOf t) (bs ! indexOf t)) ts = getPath (bs ! indexOf t) ts"
          using Cons.IH[of "bs ! indexOf t" "as ! indexOf t"] Cons.prems bw by simp
        then show ?thesis using \<open>a = JArr as\<close> \<open>b = JArr bs\<close> n True ix by simp
      next
        case False
        then show ?thesis using \<open>a = JArr as\<close> \<open>b = JArr bs\<close> n ix by simp
      qed
    qed (simp_all add: \<open>b = JArr bs\<close>)
  qed (use ne in simp_all)
qed

lemma later_leaf_wins:
  "isLeaf (getIn b p) \<Longrightarrow> getIn (deepmerge a b) p = getIn b p"
  by (simp add: getIn_def later_leaf_wins_path)

lemma deepmerge_empty_right: "deepmerge (JObj as) (JObj []) = JObj as"
proof -
  have "map (\<lambda>(k, v). (k, v)) as = as" by (induction as) auto
  then show ?thesis by simp
qed

lemma deepmerge_objects: "\<exists>cs. deepmerge (JObj as) (JObj bs) = JObj cs"
  by simp

lemma merged_with_object:
  "\<exists>cs. deepmerge a (JObj bs) = JObj cs"
  by (cases "\<exists>as. a = JObj as") (auto simp: deepmerge_other_obj)

lemma runValidations_mounted:
  assumes "promiseAll (runValidations_sources c vals) = Fulfilled results" and "didMount c"
  shows "errors (state (fst (runValidations c vals))) = deepmerge_all results"
  using runValidations_settled[OF assms(1)] assms(2)
  by (simp add: runValidations_then_def runValidations_begin_def setState_def Let_def)

lemma conflictForm_eq:
  "conflictForm = (newFormik conflictProps)
     \<lparr>didMount := True, fieldsOf := [(''x'', \<lparr>validate = Some (\<lambda>v. Returned (JStr ''f''))\<rparr>)]\<rparr>"
  by (simp add: conflictForm_def registerField_def componentDidMount_def Let_def newFormik_def
      conflictProps_def exampleProps_def)

lemma x_path: "toPath ''x'' = [''x'']" and y_path: "toPath ''y'' = [''y'']"
  by (simp_all add: toPath_def isSep_def)

lemma conflictForm_field:
  "runFieldLevelValidations conflictForm vals = Fulfilled (JObj [(''x'', JStr ''f'')])"
proof -
  have k: "fieldKeysWithValidation conflictForm = [''x'']"
    by (simp add: fieldKeysWithValidation_def hasValidate_def conflictForm_eq)
  have r': "runSingleFieldLevelValidation conflictForm ''x'' v = Fulfilled (JStr ''f'')" for v
    by (simp add: runSingleFieldLevelValidation_def conflictForm_eq)
  show ?thesis
    by (simp add: runFieldLevelValidations_def fieldValidations_def k r' reduceFieldErrors_def
        fieldErrorStep_def sentinel_def setIn_def x_path)
qed

lemma conflictForm_schema:
  "runValidationSchema conflictForm vals
     = Fulfilled (JObj [(''x'', JStr ''s''), (''y'', JStr ''s'')])"
  by (simp add: runValidationSchema_def conflictForm_eq newFormik_def conflictProps_def
      validateYupSchema_def yupToFormErrors_def setIn_def x_path y_path)

lemma conflictForm_handler:
  "runValidateHandler conflictForm vals = Fulfilled (JObj [(''x'', JStr ''m'')])"
  by (simp add: runValidateHandler_def conflictForm_eq newFormik_def conflictProps_def)

lemma conflictForm_sources:
  "promiseAll (runValidations_sources conflictForm vals)
     = Fulfilled [JObj [(''x'', JStr ''f'')], JObj [(''x'', JStr ''s''), (''y'', JStr ''s'')],
                  JObj [(''x'', JStr ''m'')]]"
proof -
  have "validationSchema (props conflictForm) \<noteq> None" "props_validate (props conflictForm) \<noteq> None"
    by (simp_all add: conflictForm_eq newFormik_def conflictProps_def)
  then show ?thesis
    by (simp add: runValidations_sources_def conflictForm_field conflictForm_schema conflictForm_handler)
qed

text \<open>
  C2. When the three sources settle with the trees \<open>fieldErrors\<close>, \<open>schemaErrors\<close>
  and \<open>handlerErrors\<close>, \<open>runValidations\<close> yields (and, while mounted, stores) their
  deep merge in that fixed order, starting from the empty tree. The later source wins
  at a leaf: a leaf of the form-level tree at a path is the value of the result at
  that path, and, when the form-level tree is empty, so is a leaf of the schema tree.
  In particular \<open>{x: "f"}\<close>, \<open>{x: "s", y: "s"}\<close> and \<open>{x: "m"}\<close> merge to
  \<open>{x: "m", y: "s"}\<close>.
\<close>

theorem validation_merge_precedence:
  assumes "promiseAll (runValidations_sources c vals)
             = Fulfilled [fieldErrors, schemaErrors, handlerErrors]"
  shows "snd (runValidations c vals)
           = Fulfilled (deepmerge (deepmerge (deepmerge (JObj []) fieldErrors) schemaErrors) handlerErrors) \<and>
         (didMount c \<longrightarrow>
            errors (state (fst (runValidations c vals)))
              = deepmerge (deepmerge (deepmerge (JObj []) fieldErrors) schemaErrors) handlerErrors) \<and>
         (\<forall>p. isLeaf (getIn handlerErrors p) \<longrightarrow>
            getIn (deepmerge (deepmerge (deepmerge (JObj []) fieldErrors) schemaErrors) handlerErrors) p
              = getIn handlerErrors p) \<and>
         (\<forall>p ss. schemaErrors = JObj ss \<and> handlerErrors = JObj [] \<and> isLeaf (getIn schemaErrors p) \<longrightarrow>
            getIn (deepmerge (deepmerge (deepmerge (JObj []) fieldErrors) schemaErrors) handlerErrors) p
              = getIn schemaErrors p) \<and>
         deepmerge_all [JObj [(''x'', JStr ''f'')], JObj [(''x'', JStr ''s''), (''y'', JStr ''s'')],
                        JObj [(''x'', JStr ''m'')]]
           = JObj [(''x'', JStr ''m''), (''y'', JStr ''s'')]"
proof (intro conjI allI impI)
  have all: "deepmerge_all [fieldErrors, schemaErrors, handlerErrors]
               = deepmerge (deepmerge (deepmerge (JObj []) fieldErrors) schemaErrors) handlerErrors"
    by (simp add: deepmerge_all_def)
  show "snd (runValidations c vals)
           = Fulfilled (deepmerge (deepmerge (deepmerge (JObj []) fieldErrors) schemaErrors) handlerErrors)"
    using runValidations_settled[OF assms] by (simp add: all)
  show "errors (state (fst (runValidations c vals)))
              = deepmerge (deepmerge (deepmerge (JObj []) fieldErrors) schemaErrors) handlerErrors"
    if "didMount c"
    using runValidations_mounted[OF assms that] by (simp add: all)
next
  fix p
  assume "isLeaf (getIn handlerErrors p)"
  then show "getIn (deepmerge (deepmerge (deepmerge (JObj []) fieldErrors) schemaErrors) handlerErrors) p
              = getIn handlerErrors p"
    by (rule later_leaf_wins)
next
  fix p ss
  assume h: "schemaErrors = JObj ss \<and> handlerErrors = JObj [] \<and> isLeaf (getIn schemaErrors p)"
  from h have se: "schemaErrors = JObj ss" by blast
  from h have he: "handlerErrors = JObj []" by blast
  from h have lf: "isLeaf (getIn schemaErrors p)" by blast
  obtain cs where cs: "deepmerge (deepmerge (JObj []) fieldErrors) schemaErrors = JObj cs"
    unfolding se using merged_with_object by blast
  have "getIn (deepmerge (deepmerge (JObj []) fieldErrors) schemaErrors) p = getIn schemaErrors p"
    using lf by (rule later_leaf_wins)
  then show "getIn (deepmerge (deepmerge (deepmerge (JObj []) fieldErrors) schemaErrors) handlerErrors) p
              = getIn schemaErrors p"
    unfolding he cs deepmerge_empty_right .
next
  show "deepmerge_all [JObj [(''x'', JStr ''f'')], JObj [(''x'', JStr ''s''), (''y'', JStr ''s'')],
                        JObj [(''x'', JStr ''m'')]]
           = JObj [(''x'', JStr ''m''), (''y'', JStr ''s'')]"
    by (simp add: deepmerge_all_def)
qed

theorem validation_merge_precedence_witness:
  "promiseAll (runValidations_sources conflictForm sampleValues)
     = Fulfilled [JObj [(''x'', JStr ''f'')], JObj [(''x'', JStr ''s''), (''y'', JStr ''s'')],
                  JObj [(''x'', JStr ''m'')]] \<and>
   snd (runValidations conflictForm sampleValues)
     = Fulfilled (JObj [(''x'', JStr ''m''), (''y'', JStr ''s'')]) \<and>
   didMount conflictForm \<and>
   errors (state (fst (runValidations conflictForm sampleValues)))
     = JObj [(''x'', JStr ''m''), (''y'', JStr ''s'')] \<and>
   isLeaf (getIn (JObj [(''x'', JStr ''m'')]) ''x'') \<and>
   getIn (JObj [(''x'', JStr ''m''), (''y'', JStr ''s'')]) ''x'' = JStr ''m''"
proof -
  have m: "deepmerge (deepmerge (deepmerge (JObj []) (JObj [(''x'', JStr ''f'')]))
              (JObj [(''x'', JStr ''s''), (''y'', JStr ''s'')])) (JObj [(''x'', JStr ''m'')])
             = JObj [(''x'', JStr ''m''), (''y'', JStr ''s'')]"
    by simp
  have d: "didMount conflictForm" by (simp add: conflictForm_eq)
  have l: "isLeaf (getIn (JObj [(''x'', JStr ''m'')]) ''x'')"
    by (simp add: getIn_def x_path)
  show ?thesis
    using validation_merge_precedence[OF conflictForm_sources[of sampleValues]] d l
    by (simp only: m conflictForm_sources) (simp add: getIn_def x_path)
qed

end
